theory Spec2Isabelle
  imports Main
begin

section \<open>Strings\<close>

text \<open>
  A JavaScript string is modelled as a \<^typ>\<open>string\<close>: the list of its code units, each
  below 256. On such strings the character classes of the source's regular expressions are
  the ones below: \<open>\s\<close> (also what \<open>String.prototype.trim\<close> removes) and \<open>\w\<close>; the
  \<open>i\<close> flag without the \<open>u\<close> flag never lets a code unit above 127 match an ASCII letter.
\<close>

definition isSpace :: "char \<Rightarrow> bool" where
  "isSpace c = (c \<in> set [CHR 0x09, CHR 0x0A, CHR 0x0B, CHR 0x0C, CHR 0x0D, CHR 0x20, CHR 0xA0])"

definition isWord :: "char \<Rightarrow> bool" where
  "isWord c = (c \<in> set ''abcdefghijklmnopqrstuvwxyzABCDEFGHIJKLMNOPQRSTUVWXYZ0123456789_'')"

definition lowerc :: "char \<Rightarrow> char" where
  "lowerc c =
     (case map_of (zip ''ABCDEFGHIJKLMNOPQRSTUVWXYZ'' ''abcdefghijklmnopqrstuvwxyz'') c of
        Some l \<Rightarrow> l
      | None \<Rightarrow> c)"

text \<open>\<open>ciPrefix p s\<close>: the lower-case literal \<open>p\<close> matched case-insensitively at the start
  of \<open>s\<close>; the result is what follows the match.\<close>

fun ciPrefix :: "string \<Rightarrow> string \<Rightarrow> string option" where
  "ciPrefix [] s = Some s"
| "ciPrefix (p # ps) [] = None"
| "ciPrefix (p # ps) (c # cs) = (if lowerc c = p then ciPrefix ps cs else None)"

definition ltrim :: "string \<Rightarrow> string" where
  "ltrim s = dropWhile isSpace s"

definition rtrim :: "string \<Rightarrow> string" where
  "rtrim s = rev (dropWhile isSpace (rev s))"

text \<open>\<open>String.prototype.trim\<close>; validator.js's \<open>trim\<close> without a character set is
  \<open>rtrim (ltrim s)\<close> over the same class, the same function.\<close>

definition trim :: "string \<Rightarrow> string" where
  "trim s = rtrim (ltrim s)"

text \<open>\<open>s.split(sep)\<close> for a one-character separator: never empty, \<open>"".split(",")\<close> is
  \<open>[""]\<close>.\<close>

fun split :: "char \<Rightarrow> string \<Rightarrow> string list" where
  "split sep [] = [[]]"
| "split sep (c # cs) =
     (if c = sep then [] # split sep cs
      else (case split sep cs of
              [] \<Rightarrow> [[c]]
            | w # ws \<Rightarrow> (c # w) # ws))"

text \<open>\<open>xs.join(sep)\<close> on strings.\<close>

fun join :: "string \<Rightarrow> string list \<Rightarrow> string" where
  "join sep [] = []"
| "join sep [x] = x"
| "join sep (x # y # ys) = x @ sep @ join sep (y # ys)"

section \<open>The sanitizer (src/sanitize.ts)\<close>

subsection \<open>Global replacement by the empty string\<close>

text \<open>
  A matcher takes whether the position is the start of the input (where \<open>^\<close> matches,
  there being no \<open>m\<close> flag that matters) and the input from the position on, and returns what
  follows the match, if the pattern matches at the position. \<open>s.replace(/re/g, "")\<close> tries
  the positions from left to right and resumes after each match; the removed text is never
  looked at again. Every pattern of the source consumes at least one character, so the
  test on the lengths always succeeds; it is what makes the recursion terminate.
\<close>

function replaceAll :: "(bool \<Rightarrow> string \<Rightarrow> string option) \<Rightarrow> bool \<Rightarrow> string \<Rightarrow> string" where
  "replaceAll m atStart [] = []"
| "replaceAll m atStart (c # cs) =
     (case m atStart (c # cs) of
        Some rest \<Rightarrow>
          (if length rest < length (c # cs) then replaceAll m False rest
           else c # replaceAll m False cs)
      | None \<Rightarrow> c # replaceAll m False cs)"
  by pat_completeness auto
termination
  by (relation "measure (\<lambda>(m, atStart, s). length s)") auto

subsection \<open>The four patterns of \<open>clean\<close>\<close>

text \<open>\<open>/javascript\s*:[^;\s]+;?/gi\<close>. \<open>\s*\<close> and \<open>[^;\s]+\<close> are greedy and what follows
  each of them cannot match a character of its class, so there is no backtracking.\<close>

definition matchJavascript :: "bool \<Rightarrow> string \<Rightarrow> string option" where
  "matchJavascript atStart s =
     (case ciPrefix ''javascript'' s of
        None \<Rightarrow> None
      | Some r1 \<Rightarrow>
          (case dropWhile isSpace r1 of
             [] \<Rightarrow> None
           | c # r2 \<Rightarrow>
               if c = CHR '':'' then
                 (let notEnd = (\<lambda>x. x \<noteq> CHR '';'' \<and> \<not> isSpace x);
                      r3 = dropWhile notEnd r2
                  in if takeWhile notEnd r2 = [] then None
                     else (case r3 of
                             [] \<Rightarrow> Some []
                           | d # r4 \<Rightarrow> if d = CHR '';'' then Some r4 else Some r3))
               else None))"

text \<open>\<open>on\w+=Q[^Q]*Q\<close> for a quote character \<open>Q\<close>, case-insensitive.\<close>

definition matchHandler :: "char \<Rightarrow> string \<Rightarrow> string option" where
  "matchHandler q s =
     (case ciPrefix ''on'' s of
        None \<Rightarrow> None
      | Some r1 \<Rightarrow>
          if takeWhile isWord r1 = [] then None
          else (case dropWhile isWord r1 of
                  e # q' # r3 \<Rightarrow>
                    if e = CHR ''='' \<and> q' = q then
                      (case dropWhile (\<lambda>x. x \<noteq> q) r3 of
                         [] \<Rightarrow> None
                       | _ # r5 \<Rightarrow> Some r5)
                    else None
                | _ \<Rightarrow> None))"

text \<open>\<open>/(^|\s)on\w+="[^"]*"/gi\<close> and its single-quote twin: the first alternative is
  tried first, and only at the start of the input; the second consumes one white-space
  character, which is removed with the match.\<close>

definition matchEvent :: "char \<Rightarrow> bool \<Rightarrow> string \<Rightarrow> string option" where
  "matchEvent q atStart s =
     (case (if atStart then matchHandler q s else None) of
        Some r \<Rightarrow> Some r
      | None \<Rightarrow>
          (case s of
             [] \<Rightarrow> None
           | c # cs \<Rightarrow> if isSpace c then matchHandler q cs else None))"

text \<open>\<open>/<[^>]*>?/gm\<close>: from a \<open><\<close> through the next \<open>>\<close>, or to the end of the input
  when there is none.\<close>

definition matchTag :: "bool \<Rightarrow> string \<Rightarrow> string option" where
  "matchTag atStart s =
     (case s of
        [] \<Rightarrow> None
      | c # cs \<Rightarrow>
          if c = CHR ''<'' then
            Some (case dropWhile (\<lambda>x. x \<noteq> CHR ''>'') cs of
                    [] \<Rightarrow> []
                  | _ # r \<Rightarrow> r)
          else None)"

definition stripTags :: "string \<Rightarrow> string" where
  "stripTags s = replaceAll matchTag True s"

definition clean :: "string \<Rightarrow> string" where
  "clean v =
     (let sanitized = trim v;
          sanitized = replaceAll matchJavascript True sanitized;
          sanitized = replaceAll (matchEvent (CHR 0x22)) True sanitized;
          sanitized = replaceAll (matchEvent (CHR 0x27)) True sanitized;
          sanitized = stripTags sanitized
      in sanitized)"

subsection \<open>Values and \<open>deepClean\<close>\<close>

text \<open>
  A value of the request: what \<open>JSON.parse\<close> produces, and \<open>undefined\<close>. Numbers are of a
  type \<open>'n\<close> that the development leaves open. An object is the list of its own enumerable
  properties in the order of \<open>Object.entries\<close>.
\<close>

datatype 'n jsval =
    Undefined
  | Null
  | Bool bool
  | Num 'n
  | Str string
  | Arr "'n jsval list"
  | Obj "(string \<times> 'n jsval) list"

text \<open>\<open>obj[key] = v\<close> on an object that started as \<open>{}\<close>: the key \<open>__proto__\<close> is the
  accessor inherited from \<open>Object.prototype\<close>, so assigning it creates no own property;
  an existing key keeps its place; a new key goes last.\<close>

fun assignProp :: "(string \<times> 'a) list \<Rightarrow> string \<Rightarrow> 'a \<Rightarrow> (string \<times> 'a) list" where
  "assignProp [] k v = (if k = ''__proto__'' then [] else [(k, v)])"
| "assignProp ((k', v') # kvs) k v =
     (if k = ''__proto__'' then (k', v') # kvs
      else if k' = k then (k, v) # kvs
      else (k', v') # assignProp kvs k v)"

fun deepClean :: "'n jsval \<Rightarrow> 'n jsval" where
  "deepClean (Arr xs) = Arr (map deepClean xs)"
| "deepClean (Obj kvs) = Obj (foldl (\<lambda>cleanedObj (key, val). assignProp cleanedObj key (deepClean val)) [] kvs)"
| "deepClean (Str s) = Str (clean s)"
| "deepClean v = v"

text \<open>The shape of a value: the value with every string leaf emptied.\<close>

fun shape :: "'n jsval \<Rightarrow> 'n jsval" where
  "shape (Arr xs) = Arr (map shape xs)"
| "shape (Obj kvs) = Obj (map (\<lambda>(k, v). (k, shape v)) kvs)"
| "shape (Str s) = Str []"
| "shape v = v"

text \<open>Objects as \<open>Object.entries\<close> lists them: no key twice; and no own key \<open>__proto__\<close>.\<close>

fun plainKeys :: "'n jsval \<Rightarrow> bool" where
  "plainKeys (Arr xs) = list_all plainKeys xs"
| "plainKeys (Obj kvs) =
     (distinct (map fst kvs) \<and> ''__proto__'' \<notin> set (map fst kvs) \<and> list_all (\<lambda>(k, v). plainKeys v) kvs)"
| "plainKeys v = True"

section \<open>The language around the validator\<close>

text \<open>
  Bounds handed to a validator in an options object: the key is absent, or holds
  \<open>undefined\<close> (the second element of a destructured one-element array), or a number.
\<close>

datatype 'n bound = NoKey | Undef | Val 'n

text \<open>The validator.js predicates the source reaches through the chain; each is applied
  to the string form of the value.\<close>

datatype 'n stdValidator =
    IsEmpty
  | IsEmail
  | IsInt
  | IsFloat "'n bound" "'n bound"
  | IsBoolean
  | IsURL
  | IsJSON
  | IsUUID
  | IsAlpha
  | IsAlphanumeric
  | IsLength "'n bound" "'n bound"
  | Matches string

text \<open>
  What the source takes from JavaScript and from validator.js without defining it. Numbers
  are IEEE doubles in the source; here their type \<open>'n\<close> and the functions on them are
  parameters, so every theorem holds whatever they are:
  \<^item> \<open>jsParseInt s\<close> is \<open>parseInt(s, 10)\<close> and \<open>jsNumber s\<close> is \<open>Number(s)\<close>;
  \<^item> \<open>jsNumberToString n\<close> is \<open>String(n)\<close>, also what a template literal prints;
  \<^item> \<open>jsLooseEq a b\<close> is \<open>a == b\<close> and \<open>jsStrictEq a b\<close> is \<open>a === b\<close>, for values read
    from the request;
  \<^item> \<open>jsRegExpValid p\<close> says that \<open>new RegExp(p)\<close> returns rather than throws;
  \<^item> \<open>validatorJs v s\<close> is the validator.js predicate \<open>v\<close> on the string \<open>s\<close>.
\<close>

record 'n builtins =
  jsParseInt :: "string \<Rightarrow> 'n"
  jsNumber :: "string \<Rightarrow> 'n"
  jsNumberToString :: "'n \<Rightarrow> string"
  jsLooseEq :: "'n jsval \<Rightarrow> 'n jsval \<Rightarrow> bool"
  jsStrictEq :: "'n jsval \<Rightarrow> 'n jsval \<Rightarrow> bool"
  jsRegExpValid :: "string \<Rightarrow> bool"
  validatorJs :: "'n stdValidator \<Rightarrow> string \<Rightarrow> bool"

text \<open>\<open>String(v)\<close>, which is also how a template literal prints \<open>v\<close>. An object of the
  request prints as \<open>[object Object]\<close>; an array joins its elements, \<open>null\<close> and
  \<open>undefined\<close> among them printing as nothing.\<close>

fun jsString :: "'n builtins \<Rightarrow> 'n jsval \<Rightarrow> string" where
  "jsString js Undefined = ''undefined''"
| "jsString js Null = ''null''"
| "jsString js (Bool b) = (if b then ''true'' else ''false'')"
| "jsString js (Num n) = jsNumberToString js n"
| "jsString js (Str s) = s"
| "jsString js (Arr xs) =
     join '','' (map (\<lambda>x. if x = Undefined \<or> x = Null then [] else jsString js x) xs)"
| "jsString js (Obj kvs) = ''[object Object]''"

definition boundString :: "'n builtins \<Rightarrow> 'n bound \<Rightarrow> string" where
  "boundString js b =
     (case b of
        NoKey \<Rightarrow> ''undefined''
      | Undef \<Rightarrow> ''undefined''
      | Val n \<Rightarrow> jsNumberToString js n)"

text \<open>The request body: a flat record from field names to values. Reading a field that
  is not there gives \<open>undefined\<close>.\<close>

type_synonym 'n body = "string \<rightharpoonup> 'n jsval"

definition fieldValue :: "'n body \<Rightarrow> string \<Rightarrow> 'n jsval" where
  "fieldValue b f = (case b f of None \<Rightarrow> Undefined | Some v \<Rightarrow> v)"

section \<open>The validation chain of express-validator\<close>

text \<open>
  Modelled from the spec: express-validator is a dependency of the repository and its source
  is not part of it. The chain and its runner below are what sections 4.1 and 4.2 of the
  spec describe, in the detail of the library's version 7 where the spec is silent: a chain
  is a field name, a stack of items run in order, and a chain-wide optional mode; the request
  is the flat record of the spec (the body; field names are plain keys).
\<close>

text \<open>What a custom predicate does: return, throw, or return a promise that settles. The
  source negates a validator only in \<open>notEmpty\<close>, so only a standard validator carries the
  negation flag, next to its message.\<close>

datatype outcome = Returns bool | Throws string | Resolves bool | Rejects string

datatype 'n item =
    StandardValidation "'n stdValidator" bool "string option"
  | CustomValidation "'n jsval \<Rightarrow> 'n body \<Rightarrow> outcome" "string option"
  | TrimSanitization
  | CustomSanitization "'n jsval \<Rightarrow> 'n body \<Rightarrow> 'n jsval"
  | Bail

datatype optionalMode = NotOptional | SkipUndefined | SkipNullish

record 'n chain =
  path :: string
  stack :: "'n item list"
  optionalMode :: optionalMode

definition check :: "string \<Rightarrow> 'n chain" where
  "check f = \<lparr>path = f, stack = [], optionalMode = NotOptional\<rparr>"

definition addItem :: "'n item \<Rightarrow> 'n chain \<Rightarrow> 'n chain" where
  "addItem i c = c\<lparr>stack := stack c @ [i]\<rparr>"

text \<open>\<open>.withMessage(m)\<close> sets the message of the last validator added to the chain. The
  source calls it only right after it has added a validator, so the case of a chain with no
  validator, where the library throws, does not arise; such a stack is left as it is.\<close>

fun setMessage :: "string \<Rightarrow> 'n item \<Rightarrow> 'n item option" where
  "setMessage m (StandardValidation v neg _) = Some (StandardValidation v neg (Some m))"
| "setMessage m (CustomValidation g _) = Some (CustomValidation g (Some m))"
| "setMessage m _ = None"

fun setLastMessage :: "string \<Rightarrow> 'n item list \<Rightarrow> 'n item list" where
  "setLastMessage m [] = []"
| "setLastMessage m (i # is) =
     (case setMessage m i of
        Some i' \<Rightarrow> i' # is
      | None \<Rightarrow> i # setLastMessage m is)"

definition withMessage :: "string \<Rightarrow> 'n chain \<Rightarrow> 'n chain" where
  "withMessage m c = c\<lparr>stack := rev (setLastMessage m (rev (stack c)))\<rparr>"

definition bail :: "'n chain \<Rightarrow> 'n chain" where
  "bail c = addItem Bail c"

text \<open>\<open>.optional()\<close> and \<open>.optional({ nullable: true })\<close> set the mode of the whole chain;
  the later call wins.\<close>

definition optional :: "'n chain \<Rightarrow> 'n chain" where
  "optional c = c\<lparr>optionalMode := SkipUndefined\<rparr>"

definition optionalNullable :: "'n chain \<Rightarrow> 'n chain" where
  "optionalNullable c = c\<lparr>optionalMode := SkipNullish\<rparr>"

definition standard :: "'n stdValidator \<Rightarrow> 'n chain \<Rightarrow> 'n chain" where
  "standard v c = addItem (StandardValidation v False None) c"

text \<open>\<open>.notEmpty()\<close> is \<open>.not().isEmpty()\<close>.\<close>

definition notEmpty :: "'n chain \<Rightarrow> 'n chain" where
  "notEmpty c = addItem (StandardValidation IsEmpty True None) c"

definition custom :: "('n jsval \<Rightarrow> 'n body \<Rightarrow> outcome) \<Rightarrow> 'n chain \<Rightarrow> 'n chain" where
  "custom g c = addItem (CustomValidation g None) c"

text \<open>\<open>.isString()\<close>, \<open>.isArray()\<close> and \<open>.isObject()\<close> are custom predicates on the value
  itself, not on its string form.\<close>

definition isString :: "'n chain \<Rightarrow> 'n chain" where
  "isString c = custom (\<lambda>v b. Returns (case v of Str s \<Rightarrow> True | _ \<Rightarrow> False)) c"

definition isArray :: "'n chain \<Rightarrow> 'n chain" where
  "isArray c = custom (\<lambda>v b. Returns (case v of Arr xs \<Rightarrow> True | _ \<Rightarrow> False)) c"

definition isObject :: "'n chain \<Rightarrow> 'n chain" where
  "isObject c = custom (\<lambda>v b. Returns (case v of Obj kvs \<Rightarrow> True | _ \<Rightarrow> False)) c"

definition chainTrim :: "'n chain \<Rightarrow> 'n chain" where
  "chainTrim c = addItem TrimSanitization c"

definition customSanitizer :: "('n jsval \<Rightarrow> 'n body \<Rightarrow> 'n jsval) \<Rightarrow> 'n chain \<Rightarrow> 'n chain" where
  "customSanitizer g c = addItem (CustomSanitization g) c"

subsection \<open>Running a chain\<close>

text \<open>The string a standard validator or sanitizer sees.\<close>

definition evToString :: "'n builtins \<Rightarrow> 'n jsval \<Rightarrow> string" where
  "evToString js v =
     (case v of
        Undefined \<Rightarrow> []
      | Null \<Rightarrow> []
      | Num n \<Rightarrow> (if jsNumberToString js n = ''NaN'' then [] else jsNumberToString js n)
      | _ \<Rightarrow> jsString js v)"

definition evalStd :: "'n builtins \<Rightarrow> 'n stdValidator \<Rightarrow> string \<Rightarrow> bool" where
  "evalStd js v s = (case v of IsEmpty \<Rightarrow> s = [] | _ \<Rightarrow> validatorJs js v s)"

text \<open>An error of the run: the field and the message; an empty or missing message is
  reported as \<open>Invalid value\<close>.\<close>

definition reported :: "string \<Rightarrow> string" where
  "reported m = (if m = [] then ''Invalid value'' else m)"

definition messageOf :: "string option \<Rightarrow> string" where
  "messageOf msg = (case msg of None \<Rightarrow> ''Invalid value'' | Some m \<Rightarrow> reported m)"

record 'n runState =
  body :: "'n body"
  errors :: "(string \<times> string) list"
  halted :: bool

definition skipped :: "optionalMode \<Rightarrow> 'n jsval \<Rightarrow> bool" where
  "skipped mode v =
     (case mode of
        NotOptional \<Rightarrow> False
      | SkipUndefined \<Rightarrow> v = Undefined
      | SkipNullish \<Rightarrow> v = Undefined \<or> v = Null)"

definition addError :: "string \<Rightarrow> string \<Rightarrow> 'n runState \<Rightarrow> 'n runState" where
  "addError f m st = st\<lparr>errors := errors st @ [(f, m)]\<rparr>"

text \<open>A sanitizer's result is written back to the request when it differs from the value
  read.\<close>

definition setData :: "string \<Rightarrow> 'n jsval \<Rightarrow> 'n jsval \<Rightarrow> 'n runState \<Rightarrow> 'n runState" where
  "setData f old new st = (if new = old then st else st\<lparr>body := (body st)(f \<mapsto> new)\<rparr>)"

text \<open>
  One item on the field's instance. An instance that the optional mode excuses, or that a
  \<open>bail\<close> has halted, is not run. A standard validator checks each element of an array
  value; a sanitizer of validator.js turns the value into a string.
\<close>

definition runItem :: "'n builtins \<Rightarrow> 'n chain \<Rightarrow> 'n runState \<Rightarrow> 'n item \<Rightarrow> 'n runState" where
  "runItem js c st i =
     (let f = path c; v = fieldValue (body st) f in
      if halted st \<or> skipped (optionalMode c) v then st
      else (case i of
          StandardValidation sv neg msg \<Rightarrow>
            (let values = (case v of Arr xs \<Rightarrow> xs | _ \<Rightarrow> [v]);
                 failing = filter (\<lambda>x. evalStd js sv (evToString js x) = neg) values
             in st\<lparr>errors := errors st @ map (\<lambda>x. (f, messageOf msg)) failing\<rparr>)
        | CustomValidation g msg \<Rightarrow>
            (case g v (body st) of
               Returns ok \<Rightarrow> if ok then st else addError f (messageOf msg) st
             | Throws e \<Rightarrow>
                 addError f (reported (case msg of Some m \<Rightarrow> if m = [] then e else m | None \<Rightarrow> e)) st
             | Resolves ok \<Rightarrow> st
             | Rejects e \<Rightarrow>
                 addError f (reported (case msg of Some m \<Rightarrow> if m = [] then e else m | None \<Rightarrow> e)) st)
        | TrimSanitization \<Rightarrow>
            setData f v
              (case v of
                 Arr xs \<Rightarrow> Arr (map (\<lambda>x. Str (trim (evToString js x))) xs)
               | _ \<Rightarrow> Str (trim (evToString js v))) st
        | CustomSanitization g \<Rightarrow> setData f v (g v (body st)) st
        | Bail \<Rightarrow> if errors st = [] then st else st\<lparr>halted := True\<rparr>))"

definition runStack :: "'n builtins \<Rightarrow> 'n chain \<Rightarrow> 'n item list \<Rightarrow> 'n runState \<Rightarrow> 'n runState" where
  "runStack js c items st = foldl (runItem js c) st items"

text \<open>A chain as a middleware: it runs its stack on the request with no error of its own
  yet, and leaves the request and its errors.\<close>

definition runChain :: "'n builtins \<Rightarrow> 'n chain \<Rightarrow> 'n body \<Rightarrow> 'n body \<times> (string \<times> string) list" where
  "runChain js c b =
     (let st = runStack js c (stack c) \<lparr>body = b, errors = [], halted = False\<rparr>
      in (body st, errors st))"

text \<open>The chains of a route, one after the other on the same request; the errors
  accumulate in the order of the chains.\<close>

fun runAll :: "'n builtins \<Rightarrow> 'n chain list \<Rightarrow> 'n body \<Rightarrow> 'n body \<times> (string \<times> string) list" where
  "runAll js [] b = (b, [])"
| "runAll js (c # cs) b =
     (case runChain js c b of
        (b1, es1) \<Rightarrow> (case runAll js cs b1 of (b2, es2) \<Rightarrow> (b2, es1 @ es2)))"

section \<open>The rule compiler (src/index.ts)\<close>

text \<open>
  The variable \<open>chain\<close> of the source holds a validation chain, unless a rule name found on
  \<open>Object.prototype\<close> has replaced it (see \<open>basicValidators\<close>): then it is \<open>undefined\<close> or
  some other value without the chain's methods, and calling a method of the chain on it
  throws a \<open>TypeError\<close>.
\<close>

datatype junk = JUndefined | JOther

datatype 'n chainVar = Chain "'n chain" | NotAChain junk

datatype error = TypeError | SyntaxError

definition call :: "'n chainVar \<Rightarrow> ('n chain \<Rightarrow> 'n chain) \<Rightarrow> error + 'n chainVar" where
  "call chain method =
     (case chain of
        Chain c \<Rightarrow> Inr (Chain (method c))
      | NotAChain j \<Rightarrow> Inl TypeError)"

text \<open>
  \<open>basicValidators[rule]\<close>. The table is an object literal, so the lookup also finds what
  the table inherits from \<open>Object.prototype\<close>: functions (\<open>constructor\<close> returns its first
  argument when that is an object; \<open>toString\<close>, \<open>toLocaleString\<close>, \<open>valueOf\<close>,
  \<open>hasOwnProperty\<close>, \<open>isPrototypeOf\<close> and \<open>propertyIsEnumerable\<close> return a string, the
  table or \<open>false\<close>; \<open>__lookupGetter__\<close> and \<open>__lookupSetter__\<close> return \<open>undefined\<close>;
  \<open>__defineGetter__\<close> and \<open>__defineSetter__\<close> throw, their second argument being the field
  name and not a function), and \<open>__proto__\<close>, which is an object: truthy, and not callable.
\<close>

datatype 'n tableEntry =
    Own "'n chain \<Rightarrow> string \<Rightarrow> 'n chain"
  | InheritedConstructor
  | InheritedValue junk
  | InheritedThrows
  | NotCallable
  | Missing

definition basicValidators :: "string \<Rightarrow> 'n tableEntry" where
  "basicValidators rule =
     (if rule = ''required'' then Own (\<lambda>c f. bail (withMessage (f @ '' is required'') (notEmpty c)))
      else if rule = ''optional'' then Own (\<lambda>c f. optional c)
      else if rule = ''nullable'' then Own (\<lambda>c f. optionalNullable c)
      else if rule = ''email'' then
        Own (\<lambda>c f. withMessage (f @ '' must be a valid email'') (standard IsEmail c))
      else if rule = ''string'' then
        Own (\<lambda>c f. withMessage (f @ '' must be a string'') (isString c))
      else if rule = ''integer'' then
        Own (\<lambda>c f. withMessage (f @ '' must be an integer'') (standard IsInt c))
      else if rule = ''numeric'' then
        Own (\<lambda>c f. withMessage (f @ '' must be numeric'') (standard (IsFloat NoKey NoKey) c))
      else if rule = ''boolean'' then
        Own (\<lambda>c f. withMessage (f @ '' must be true or false'') (standard IsBoolean c))
      else if rule = ''url'' then
        Own (\<lambda>c f. withMessage (f @ '' must be a valid URL'') (standard IsURL c))
      else if rule = ''array'' then
        Own (\<lambda>c f. withMessage (f @ '' must be an array'') (isArray c))
      else if rule = ''object'' then
        Own (\<lambda>c f. withMessage (f @ '' must be an object'') (isObject c))
      else if rule = ''json'' then
        Own (\<lambda>c f. withMessage (f @ '' must be valid JSON'') (standard IsJSON c))
      else if rule = ''uuid'' then
        Own (\<lambda>c f. withMessage (f @ '' must be a valid UUID'') (standard IsUUID c))
      else if rule = ''alpha'' then
        Own (\<lambda>c f. withMessage (f @ '' must contain only letters'') (standard IsAlpha c))
      else if rule = ''alphanumeric'' then
        Own (\<lambda>c f. withMessage (f @ '' must contain only letters & numbers'') (standard IsAlphanumeric c))
      else if rule = ''constructor'' then InheritedConstructor
      else if rule \<in> set [''toString'', ''toLocaleString'', ''valueOf'', ''hasOwnProperty'',
                           ''isPrototypeOf'', ''propertyIsEnumerable''] then InheritedValue JOther
      else if rule \<in> set [''__lookupGetter__'', ''__lookupSetter__''] then InheritedValue JUndefined
      else if rule \<in> set [''__defineGetter__'', ''__defineSetter__''] then InheritedThrows
      else if rule = ''__proto__'' then NotCallable
      else Missing)"

text \<open>The element of \<open>params.split(",").map(Number)\<close> that a destructuring reads.\<close>

definition nthBound :: "'n list \<Rightarrow> nat \<Rightarrow> 'n bound" where
  "nthBound parts i = (if i < length parts then Val (parts ! i) else Undef)"

text \<open>\<open>otherField,value\<close> split at the first comma, and the value a cross-field rule
  compares with.\<close>

definition beforeComma :: "string \<Rightarrow> string" where
  "beforeComma params = takeWhile (\<lambda>x. x \<noteq> CHR '','') params"

definition afterComma :: "string \<Rightarrow> string" where
  "afterComma params = tl (dropWhile (\<lambda>x. x \<noteq> CHR '','') params)"

definition expectedValue :: "string \<Rightarrow> 'n jsval" where
  "expectedValue rawValue =
     (if rawValue = ''true'' then Bool True
      else if rawValue = ''false'' then Bool False
      else Str rawValue)"

definition isBlank :: "'n jsval \<Rightarrow> bool" where
  "isBlank v = (v = Undefined \<or> v = Str [] \<or> v = Null)"

definition applyParamRule ::
  "'n builtins \<Rightarrow> 'n chainVar \<Rightarrow> string \<Rightarrow> string \<Rightarrow> string \<Rightarrow> string list \<Rightarrow> error + 'n chainVar" where
  "applyParamRule js chain field ruleName params allRules =
     (if ruleName = ''min'' then
        (let min = jsParseInt js params in
         if ''integer'' \<in> set allRules \<or> ''numeric'' \<in> set allRules then
           call chain (\<lambda>c. withMessage (field @ '' must be at least '' @ jsNumberToString js min)
                              (standard (IsFloat (Val min) NoKey) c))
         else
           call chain (\<lambda>c. withMessage (field @ '' must be at least '' @ jsNumberToString js min @ '' characters'')
                              (standard (IsLength (Val min) NoKey) c)))
      else if ruleName = ''max'' then
        (let max = jsParseInt js params in
         if ''integer'' \<in> set allRules \<or> ''numeric'' \<in> set allRules then
           call chain (\<lambda>c. withMessage (field @ '' must be at most '' @ jsNumberToString js max)
                              (standard (IsFloat NoKey (Val max)) c))
         else
           call chain (\<lambda>c. withMessage (field @ '' must be at most '' @ jsNumberToString js max @ '' characters'')
                              (standard (IsLength NoKey (Val max)) c)))
      else if ruleName = ''length'' then
        (let parts = map (jsNumber js) (split (CHR '','') params);
             min = nthBound parts 0; max = nthBound parts 1
         in call chain (\<lambda>c. withMessage
                (field @ '' must be between '' @ boundString js min @ '' and '' @ boundString js max @ '' characters'')
                (standard (IsLength min max) c)))
      else if ruleName = ''between'' then
        (let parts = map (jsNumber js) (split (CHR '','') params);
             min = nthBound parts 0; max = nthBound parts 1
         in if ''integer'' \<in> set allRules \<or> ''numeric'' \<in> set allRules then
              call chain (\<lambda>c. withMessage
                (field @ '' must be between '' @ boundString js min @ '' and '' @ boundString js max)
                (standard (IsFloat min max) c))
            else
              call chain (\<lambda>c. withMessage
                (field @ '' must be between '' @ boundString js min @ '' and '' @ boundString js max @ '' characters'')
                (standard (IsLength min max) c)))
      else if ruleName = ''in'' then
        (let values = map trim (split (CHR '','') params)
         in call chain (\<lambda>c. withMessage (field @ '' must be one of: '' @ join '', '' values)
                (custom (\<lambda>val b. Returns (trim (jsString js val) \<in> set values)) (chainTrim c))))
      else if ruleName = ''regex'' then
        (let pattern = (if params \<noteq> [] \<and> hd params = CHR ''/'' \<and> last params = CHR ''/''
                        then butlast (tl params) else params)
         in case chain of
              NotAChain JUndefined \<Rightarrow> Inl TypeError
            | _ \<Rightarrow>
                if jsRegExpValid js pattern then
                  call chain (\<lambda>c. withMessage (field @ '' format is invalid'') (standard (Matches pattern) c))
                else Inl SyntaxError)
      else if ruleName = ''same'' then
        call chain (custom (\<lambda>value b.
          if jsStrictEq js value (fieldValue b params) then Returns True
          else Throws (field @ '' must match '' @ params)))
      else if ruleName = ''default'' then
        call chain (customSanitizer (\<lambda>v b.
          if v = Undefined \<or> v = Null \<or> v = Str [] then Str params else v))
      else if ruleName = ''required_if'' then
        (if CHR '','' \<in> set params then
           (let otherField = beforeComma params; rawValue = afterComma params
            in call chain (custom (\<lambda>value b.
                 let otherVal = fieldValue b otherField; expected = expectedValue rawValue
                 in if jsLooseEq js otherVal expected \<and> isBlank value then
                      Throws (field @ '' is required when '' @ otherField @ '' is '' @ jsString js expected)
                    else Returns True)))
         else Inr chain)
      else if ruleName = ''required_unless'' then
        (if CHR '','' \<in> set params then
           (let otherField = beforeComma params; rawValue = afterComma params
            in call chain (custom (\<lambda>value b.
                 let otherVal = fieldValue b otherField; expected = expectedValue rawValue
                 in if \<not> jsLooseEq js otherVal expected \<and> isBlank value then
                      Throws (field @ '' is required unless '' @ otherField @ '' is '' @ jsString js expected)
                    else Returns True)))
         else Inr chain)
      else if ruleName = ''prohibited_if'' then
        (if CHR '','' \<in> set params then
           (let otherField = beforeComma params; rawValue = afterComma params
            in call chain (custom (\<lambda>value b.
                 let otherVal = fieldValue b otherField; expected = expectedValue rawValue
                 in if jsLooseEq js otherVal expected \<and> \<not> isBlank value then
                      Throws (field @ '' is not allowed when '' @ otherField @ '' is '' @ jsString js expected)
                    else Returns True)))
         else Inr chain)
      else Inr chain)"

subsection \<open>\<open>makeValidators\<close>\<close>

text \<open>One field's rules as the caller wrote them: a string, or an array whose elements are
  strings, \<open>{ custom: f }\<close> objects and, untyped, anything else: \<open>null\<close>, on which the test
  \<open>'custom' in r\<close> throws a \<open>TypeError\<close> (\<open>typeof null\<close> is \<open>'object'\<close>), or a value that both
  tests of the loop let pass (a number, a boolean, \<open>undefined\<close>, an object without the
  key).\<close>

datatype 'n ruleItem =
    RuleString string
  | RuleCustom "'n jsval \<Rightarrow> 'n body \<Rightarrow> outcome"
  | RuleNull
  | RuleOther

datatype 'n rawRules = RawString string | RawArray "'n ruleItem list" | RawOther

text \<open>The body of \<open>rawRules.forEach\<close>, and the loop, which the first throw ends.\<close>

definition pushRule ::
  "string list \<times> ('n jsval \<Rightarrow> 'n body \<Rightarrow> outcome) list \<Rightarrow> 'n ruleItem \<Rightarrow>
   error + string list \<times> ('n jsval \<Rightarrow> 'n body \<Rightarrow> outcome) list" where
  "pushRule acc r =
     (case acc of (fieldRules, customRules) \<Rightarrow>
        (case r of
           RuleString s \<Rightarrow> Inr (fieldRules @ [s], customRules)
         | RuleCustom g \<Rightarrow> Inr (fieldRules, customRules @ [g])
         | RuleNull \<Rightarrow> Inl TypeError
         | RuleOther \<Rightarrow> Inr (fieldRules, customRules)))"

fun pushRules ::
  "string list \<times> ('n jsval \<Rightarrow> 'n body \<Rightarrow> outcome) list \<Rightarrow> 'n ruleItem list \<Rightarrow>
   error + string list \<times> ('n jsval \<Rightarrow> 'n body \<Rightarrow> outcome) list" where
  "pushRules acc [] = Inr acc"
| "pushRules acc (r # rs) =
     (case pushRule acc r of
        Inl e \<Rightarrow> Inl e
      | Inr acc' \<Rightarrow> pushRules acc' rs)"

definition normalizeRules ::
  "'n rawRules \<Rightarrow> error + string list \<times> ('n jsval \<Rightarrow> 'n body \<Rightarrow> outcome) list" where
  "normalizeRules rawRules =
     (case rawRules of
        RawString s \<Rightarrow> Inr (split (CHR ''|'') s, [])
      | RawArray items \<Rightarrow> pushRules ([], []) items
      | RawOther \<Rightarrow> Inr ([], []))"

text \<open>The body of \<open>fieldRules.forEach\<close>: a token with a colon is split at the first colon;
  any other token is looked up in the table and called when the lookup is truthy.\<close>

definition applyRule ::
  "'n builtins \<Rightarrow> string \<Rightarrow> string list \<Rightarrow> 'n chainVar \<Rightarrow> string \<Rightarrow> error + 'n chainVar" where
  "applyRule js field fieldRules chain rule =
     (if CHR '':'' \<in> set rule then
        applyParamRule js chain field
          (takeWhile (\<lambda>x. x \<noteq> CHR '':'') rule) (tl (dropWhile (\<lambda>x. x \<noteq> CHR '':'') rule)) fieldRules
      else
        (case basicValidators rule of
           Own validator \<Rightarrow> call chain (\<lambda>c. validator c field)
         | InheritedConstructor \<Rightarrow>
             (case chain of
                Chain c \<Rightarrow> Inr chain
              | NotAChain j \<Rightarrow> Inr (NotAChain JOther))
         | InheritedValue j \<Rightarrow> Inr (NotAChain j)
         | InheritedThrows \<Rightarrow> Inl TypeError
         | NotCallable \<Rightarrow> Inl TypeError
         | Missing \<Rightarrow> Inr chain))"

fun forEachRule ::
  "'n builtins \<Rightarrow> string \<Rightarrow> string list \<Rightarrow> 'n chainVar \<Rightarrow> string list \<Rightarrow> error + 'n chainVar" where
  "forEachRule js field fieldRules chain [] = Inr chain"
| "forEachRule js field fieldRules chain (rule # rules) =
     (case applyRule js field fieldRules chain rule of
        Inl e \<Rightarrow> Inl e
      | Inr chain' \<Rightarrow> forEachRule js field fieldRules chain' rules)"

fun forEachCustom ::
  "'n chainVar \<Rightarrow> ('n jsval \<Rightarrow> 'n body \<Rightarrow> outcome) list \<Rightarrow> error + 'n chainVar" where
  "forEachCustom chain [] = Inr chain"
| "forEachCustom chain (g # gs) =
     (case call chain (custom g) of
        Inl e \<Rightarrow> Inl e
      | Inr chain' \<Rightarrow> forEachCustom chain' gs)"

text \<open>The body of the loop over the fields: what is pushed on \<open>validators\<close>.\<close>

definition fieldValidator :: "'n builtins \<Rightarrow> string \<Rightarrow> 'n rawRules \<Rightarrow> error + 'n chainVar" where
  "fieldValidator js field rawRules =
     (case normalizeRules rawRules of
        Inl e \<Rightarrow> Inl e
      | Inr (fieldRules, customRules) \<Rightarrow>
          (case forEachRule js field fieldRules (Chain (check field)) fieldRules of
             Inl e \<Rightarrow> Inl e
           | Inr chain \<Rightarrow> forEachCustom chain customRules))"

text \<open>\<open>rules\<close> is the configuration in the order \<open>for ... in\<close> visits its fields.\<close>

fun makeValidators ::
  "'n builtins \<Rightarrow> (string \<times> 'n rawRules) list \<Rightarrow> error + 'n chainVar list" where
  "makeValidators js [] = Inr []"
| "makeValidators js ((field, rawRules) # rules) =
     (case fieldValidator js field rawRules of
        Inl e \<Rightarrow> Inl e
      | Inr chain \<Rightarrow>
          (case makeValidators js rules of
             Inl e \<Rightarrow> Inl e
           | Inr validators \<Rightarrow> Inr (chain # validators)))"

subsection \<open>\<open>validate\<close>\<close>

datatype response = Next | Status422 "string list"

definition validate :: "(string \<times> string) list \<Rightarrow> response" where
  "validate errs = (if errs = [] then Next else Status422 (map snd errs))"

text \<open>A route \<open>app.post(path, ...validators, validate, handler)\<close> on one request: the
  request as the handler or the client sees it, and what \<open>validate\<close> does.\<close>

definition handleRequest :: "'n builtins \<Rightarrow> 'n chain list \<Rightarrow> 'n body \<Rightarrow> 'n body \<times> response" where
  "handleRequest js validators b = (case runAll js validators b of (b', errs) \<Rightarrow> (b', validate errs))"

text \<open>
  An instance of the built-ins, for evaluating examples. A number is \<open>NaN\<close> or a whole
  number.
  \<^item> \<open>parseInt10 s\<close> is \<open>parseInt(s, 10)\<close>: leading white space, a sign, then the longest
    run of decimal digits, \<open>NaN\<close> when there is none (so \<open>parseInt("1.5", 10)\<close> is 1).
  \<^item> \<open>wholeNumber s\<close> is \<open>Number(s)\<close> when \<open>s\<close>, trimmed, is empty or an optionally signed
    run of decimal digits. On every other string it answers \<open>NaN\<close>, which JavaScript does
    only when the string is no numeric literal at all (it reads fractions, exponents,
    \<open>0x\<close> literals and \<open>Infinity\<close>); no example below applies it to such a string.
  \<^item> \<open>numberText n\<close> is \<open>String(n)\<close>, for \<open>NaN\<close> and for whole numbers below \<open>10^21\<close> in
    size (a double holds every whole number up to \<open>2^53\<close>).
  \<^item> The two equalities are equality of values, which is \<open>===\<close> on strings, booleans,
    \<open>null\<close> and \<open>undefined\<close>; the examples compare nothing else. Every pattern compiles,
    and the validator.js predicates, which no example evaluates, answer \<open>False\<close>.
\<close>

datatype jsnum = NaN | Whole int

definition isDigit :: "char \<Rightarrow> bool" where
  "isDigit c = (c \<in> set ''0123456789'')"

definition digitValue :: "char \<Rightarrow> nat" where
  "digitValue c = (case map_of (zip ''0123456789'' [0, 1, 2, 3, 4, 5, 6, 7, 8, 9]) c of Some d \<Rightarrow> d | None \<Rightarrow> 0)"

definition decimalValue :: "string \<Rightarrow> nat" where
  "decimalValue s = foldl (\<lambda>acc c. 10 * acc + digitValue c) 0 s"

definition signedDigits :: "string \<Rightarrow> bool \<times> string" where
  "signedDigits t =
     (case t of
        [] \<Rightarrow> (False, [])
      | c # r \<Rightarrow> if c = CHR ''-'' then (True, r) else if c = CHR ''+'' then (False, r) else (False, t))"

definition wholeOf :: "bool \<Rightarrow> string \<Rightarrow> jsnum" where
  "wholeOf negative ds = Whole (if negative then - int (decimalValue ds) else int (decimalValue ds))"

definition parseInt10 :: "string \<Rightarrow> jsnum" where
  "parseInt10 s =
     (case signedDigits (dropWhile isSpace s) of
        (negative, u) \<Rightarrow>
          if takeWhile isDigit u = [] then NaN else wholeOf negative (takeWhile isDigit u))"

definition wholeNumber :: "string \<Rightarrow> jsnum" where
  "wholeNumber s =
     (if trim s = [] then Whole 0
      else (case signedDigits (trim s) of
              (negative, u) \<Rightarrow>
                if u \<noteq> [] \<and> list_all isDigit u then wholeOf negative u else NaN))"

fun decimalDigits :: "nat \<Rightarrow> nat \<Rightarrow> string" where
  "decimalDigits 0 n = []"
| "decimalDigits (Suc fuel) n =
     (if n < 10 then [''0123456789'' ! n]
      else decimalDigits fuel (n div 10) @ [''0123456789'' ! (n mod 10)])"

definition numberText :: "jsnum \<Rightarrow> string" where
  "numberText n =
     (case n of
        NaN \<Rightarrow> ''NaN''
      | Whole i \<Rightarrow>
          if i < 0 then CHR ''-'' # decimalDigits (Suc (nat (- i))) (nat (- i))
          else decimalDigits (Suc (nat i)) (nat i))"

definition exampleBuiltins :: "jsnum builtins" where
  "exampleBuiltins =
     \<lparr>jsParseInt = parseInt10, jsNumber = wholeNumber, jsNumberToString = numberText,
      jsLooseEq = (\<lambda>a b. a = b), jsStrictEq = (\<lambda>a b. a = b),
      jsRegExpValid = (\<lambda>p. True), validatorJs = (\<lambda>v s. False)\<rparr>"

section \<open>Notions used in the statements\<close>

text \<open>The field's token list contains \<open>integer\<close> or \<open>numeric\<close>.\<close>

definition numericTagged :: "string list \<Rightarrow> bool" where
  "numericTagged allRules = (''integer'' \<in> set allRules \<or> ''numeric'' \<in> set allRules)"

text \<open>The string tokens of a sequence of rules, in their order, and its custom predicates,
  in theirs.\<close>

primrec stringsOf :: "'n ruleItem list \<Rightarrow> string list" where
  "stringsOf [] = []"
| "stringsOf (r # rs) = (case r of RuleString s \<Rightarrow> s # stringsOf rs | _ \<Rightarrow> stringsOf rs)"

primrec customsOf :: "'n ruleItem list \<Rightarrow> ('n jsval \<Rightarrow> 'n body \<Rightarrow> outcome) list" where
  "customsOf [] = []"
| "customsOf (r # rs) = (case r of RuleCustom g \<Rightarrow> g # customsOf rs | _ \<Rightarrow> customsOf rs)"

text \<open>The rule names that \<open>applyParamRule\<close> has a case for.\<close>

definition recognizedParamRules :: "string list" where
  "recognizedParamRules = [''min'', ''max'', ''length'', ''between'', ''in'', ''regex'', ''same'',
     ''default'', ''required_if'', ''required_unless'', ''prohibited_if'']"

text \<open>The chains among the validators, when all of them are chains; and a request on the
  route built from a configuration: nothing when \<open>makeValidators\<close> throws or a validator
  is not a chain, else the request as it leaves the chains and what \<open>validate\<close> does.\<close>

primrec chainsOf :: "'n chainVar list \<Rightarrow> 'n chain list option" where
  "chainsOf [] = Some []"
| "chainsOf (v # vs) =
     (case v of
        Chain c \<Rightarrow> map_option (\<lambda>cs. c # cs) (chainsOf vs)
      | NotAChain j \<Rightarrow> None)"

definition validateRecord ::
  "'n builtins \<Rightarrow> (string \<times> 'n rawRules) list \<Rightarrow> 'n body \<Rightarrow> ('n body \<times> response) option" where
  "validateRecord js rules b =
     (case makeValidators js rules of
        Inl e \<Rightarrow> None
      | Inr validators \<Rightarrow>
          (case chainsOf validators of
             None \<Rightarrow> None
           | Some cs \<Rightarrow> Some (handleRequest js cs b)))"

text \<open>What the compiler makes of a field once its chain is \<open>c\<close> and the string tokens
  \<open>post\<close> and the custom predicates are still to come; \<open>allRules\<close> is the field's token list.\<close>

definition restOfField ::
  "'n builtins \<Rightarrow> string \<Rightarrow> string list \<Rightarrow> string list \<Rightarrow>
   ('n jsval \<Rightarrow> 'n body \<Rightarrow> outcome) list \<Rightarrow> 'n chain \<Rightarrow> error + 'n chainVar" where
  "restOfField js f allRules post customs c =
     (case forEachRule js f allRules (Chain c) post of
        Inl e \<Rightarrow> Inl e
      | Inr chain \<Rightarrow> forEachCustom chain customs)"

text \<open>The items a string token puts on a chain: what it leaves on the empty chain of the
  field (nothing, when it leaves no chain).\<close>

definition tokenItems :: "'n builtins \<Rightarrow> string \<Rightarrow> string list \<Rightarrow> string \<Rightarrow> 'n item list" where
  "tokenItems js f allRules t =
     (case applyRule js f allRules (Chain (check f)) t of
        Inr (Chain c) \<Rightarrow> stack c
      | _ \<Rightarrow> [])"

text \<open>What the trim sanitizer makes of a value.\<close>

definition trimmedValue :: "'n builtins \<Rightarrow> 'n jsval \<Rightarrow> 'n jsval" where
  "trimmedValue js v =
     (case v of
        Arr xs \<Rightarrow> Arr (map (\<lambda>x. Str (trim (evToString js x))) xs)
      | _ \<Rightarrow> Str (trim (evToString js v)))"

section \<open>Properties of the sanitizer\<close>

lemma assignProp_fresh:
  "k \<noteq> ''__proto__'' \<Longrightarrow> k \<notin> set (map fst acc) \<Longrightarrow> assignProp acc k v = acc @ [(k, v)]"
  by (induction acc) auto

lemma foldl_assignProp:
  "distinct (map fst kvs) \<Longrightarrow> ''__proto__'' \<notin> set (map fst kvs) \<Longrightarrow>
   set (map fst acc) \<inter> set (map fst kvs) = {} \<Longrightarrow>
   foldl (\<lambda>cleanedObj (key, val). assignProp cleanedObj key (g val)) acc kvs =
     acc @ map (\<lambda>(k, v). (k, g v)) kvs"
proof (induction kvs arbitrary: acc)
  case Nil
  then show ?case by simp
next
  case (Cons kv kvs)
  obtain k v where kv: "kv = (k, v)" by (cases kv)
  have fresh: "assignProp acc k (g v) = acc @ [(k, g v)]"
    using Cons.prems kv by (intro assignProp_fresh) auto
  have "foldl (\<lambda>cleanedObj (key, val). assignProp cleanedObj key (g val)) (acc @ [(k, g v)]) kvs =
        (acc @ [(k, g v)]) @ map (\<lambda>(k, v). (k, g v)) kvs"
    using Cons.prems kv by (intro Cons.IH) auto
  then show ?case using fresh kv by simp
qed

text \<open>On an object with plain keys the loop of \<open>deepClean\<close> is a map over the entries.\<close>

lemma deepClean_Obj_plain:
  "distinct (map fst kvs) \<Longrightarrow> ''__proto__'' \<notin> set (map fst kvs) \<Longrightarrow>
   deepClean (Obj kvs) = Obj (map (\<lambda>(k, v). (k, deepClean v)) kvs)"
  using foldl_assignProp [of kvs "[]" deepClean] by simp

lemma shape_deepClean: "plainKeys v \<Longrightarrow> shape (deepClean v) = shape v"
proof (induction v rule: deepClean.induct)
  case (1 xs)
  then show ?case by (simp add: list_all_iff)
next
  case (2 kvs)
  have "deepClean (Obj kvs) = Obj (map (\<lambda>(k, v). (k, deepClean v)) kvs)"
    using "2.prems" by (intro deepClean_Obj_plain) simp_all
  moreover have "\<And>k v. (k, v) \<in> set kvs \<Longrightarrow> shape (deepClean v) = shape v"
    using 2 by (auto simp: list_all_iff)
  ultimately show ?case by auto
qed simp_all

text \<open>One pass of the tag pattern leaves no \<open><\<close> behind: every \<open><\<close> of the input starts a
  match or lies inside one.\<close>

lemma replaceAll_matchTag_no_lt: "CHR ''<'' \<notin> set (replaceAll matchTag b s)"
proof (induction matchTag b s rule: replaceAll.induct)
  case (1 atStart)
  then show ?case by simp
next
  case (2 atStart c cs)
  show ?case
  proof (cases "c = CHR ''<''")
    case True
    define rest where "rest = (case dropWhile (\<lambda>x. x \<noteq> CHR ''>'') cs of [] \<Rightarrow> [] | _ # r \<Rightarrow> r)"
    have m: "matchTag atStart (c # cs) = Some rest"
      using True by (simp add: matchTag_def rest_def)
    have "length (dropWhile (\<lambda>x. x \<noteq> CHR ''>'') cs) \<le> length cs"
      by (rule length_dropWhile_le)
    then have len: "length rest < length (c # cs)"
      by (auto simp: rest_def split: list.splits)
    from 2 m len show ?thesis by simp
  next
    case False
    then have m: "matchTag atStart (c # cs) = None" by (simp add: matchTag_def)
    from 2 m False show ?thesis by simp
  qed
qed

text \<open>
  Claim C7. The sanitizer's examples: \<open>clean("javascript:alert(1)")\<close> is \<open>""\<close>,
  \<open>clean(' onclick="alert(1)" ')\<close> is \<open>""\<close>, \<open>clean("<b>John</b>")\<close> is \<open>"John"\<close>, and
  \<open>deepClean({a:{b:"<i>x</i>"}})\<close> is \<open>{a:{b:"x"}}\<close>; and \<open>deepClean\<close> rebuilds every value
  whose objects have plain keys with the same shape and the same keys: only string leaves
  change.
\<close>

theorem sanitizer_examples_and_shape:
  \<open>clean ''javascript:alert(1)'' = [] \<and>
   clean '' onclick="alert(1)" '' = [] \<and>
   clean ''<b>John</b>'' = ''John'' \<and>
   deepClean (Obj [(''a'', Obj [(''b'', Str ''<i>x</i>'')])]) = Obj [(''a'', Obj [(''b'', Str ''x'')])] \<and>
   (plainKeys v \<longrightarrow> shape (deepClean v) = shape v)\<close>
proof -
  have e1: "clean ''javascript:alert(1)'' = []" by code_simp
  have e2: \<open>clean '' onclick="alert(1)" '' = []\<close> by code_simp
  have e3: "clean ''<b>John</b>'' = ''John''" by code_simp
  have e4: "clean ''<i>x</i>'' = ''x''" by code_simp
  show ?thesis using e1 e2 e3 e4 shape_deepClean [of v] by simp
qed

theorem sanitizer_examples_and_shape_witness:
  "plainKeys (Obj [(''a'', Obj [(''b'', Str ''<i>x</i>'')])]) \<and>
   shape (deepClean (Obj [(''a'', Obj [(''b'', Str ''<i>x</i>'')])])) =
     shape (Obj [(''a'', Obj [(''b'', Str ''<i>x</i>'')])])"
  using sanitizer_examples_and_shape [of "Obj [(''a'', Obj [(''b'', Str ''<i>x</i>'')])]"]
  by simp

text \<open>
  Claim C8, as stated: one pass of \<open>clean\<close> over \<open>"<<script>script>"\<close> leaves \<open>"<script>"\<close>.
  It does not: the first match of the tag pattern runs from the first \<open><\<close> through the first
  \<open>>\<close> and so takes the inner \<open><script\<close> with it.
\<close>

theorem clean_nested_tag_counterexample:
  "clean ''<<script>script>'' \<noteq> ''<script>''"
  by code_simp

text \<open>
  Claim C8, amended. Tag stripping is a single pass whose output is not scanned again. One
  pass of \<open>clean\<close> over \<open>"<<script>script>"\<close> leaves \<open>"script>"\<close>; the tag pass never leaves a
  \<open><\<close>; and \<open>clean\<close> is not idempotent on a tag nested in other markup:
  \<open>clean("java<i>script:alert(1)")\<close> is \<open>"javascript:alert(1)"\<close>, which a second pass removes.
\<close>

theorem clean_single_pass_residual:
  "clean ''<<script>script>'' = ''script>'' \<and>
   CHR ''<'' \<notin> set (stripTags s) \<and>
   clean ''java<i>script:alert(1)'' = ''javascript:alert(1)'' \<and>
   clean (clean ''java<i>script:alert(1)'') = []"
proof -
  have e1: "clean ''<<script>script>'' = ''script>''" by code_simp
  have e2: "clean ''java<i>script:alert(1)'' = ''javascript:alert(1)''" by code_simp
  have e3: "clean ''javascript:alert(1)'' = []" by code_simp
  show ?thesis using e1 e2 e3 replaceAll_matchTag_no_lt [of True s] by (simp add: stripTags_def)
qed

section \<open>Properties of the rule compiler\<close>

lemma withMessage_standard:
  "withMessage m (standard v c) = addItem (StandardValidation v False (Some m)) c"
  by (simp add: withMessage_def standard_def addItem_def)

lemma withMessage_notEmpty:
  "withMessage m (notEmpty c) = addItem (StandardValidation IsEmpty True (Some m)) c"
  by (simp add: withMessage_def notEmpty_def addItem_def)

lemma withMessage_custom:
  "withMessage m (custom g c) = addItem (CustomValidation g (Some m)) c"
  by (simp add: withMessage_def custom_def addItem_def)

lemma takeWhile_before:
  "sep \<notin> set a \<Longrightarrow> takeWhile (\<lambda>x. x \<noteq> sep) (a @ sep # b) = a"
  by (induction a) auto

lemma dropWhile_after:
  "sep \<notin> set a \<Longrightarrow> tl (dropWhile (\<lambda>x. x \<noteq> sep) (a @ sep # b)) = b"
  by (induction a) auto



lemma applyParamRule_tagged:
  "numericTagged a = numericTagged a' \<Longrightarrow>
   applyParamRule js chain f n p a = applyParamRule js chain f n p a'"
  by (cases "numericTagged a") (simp_all add: applyParamRule_def numericTagged_def)

lemma applyRule_tagged:
  "numericTagged a = numericTagged a' \<Longrightarrow> applyRule js f a chain r = applyRule js f a' chain r"
  by (simp add: applyRule_def applyParamRule_tagged [of a a'])

lemma forEachRule_tagged:
  "numericTagged a = numericTagged a' \<Longrightarrow> forEachRule js f a chain rs = forEachRule js f a' chain rs"
  by (induction rs arbitrary: chain) (simp_all add: applyRule_tagged [of a a'] split: sum.splits)

lemma forEachRule_skip:
  "(\<And>chain. applyRule js f a chain t = Inr chain) \<Longrightarrow>
   forEachRule js f a chain (pre @ t # post) = forEachRule js f a chain (pre @ post)"
  by (induction pre arbitrary: chain) (simp_all split: sum.splits)

lemma pushRules_partition:
  "pushRules (fr, cr) items =
     (if RuleNull \<in> set items then Inl TypeError
      else Inr (fr @ stringsOf items, cr @ customsOf items))"
  by (induction items arbitrary: fr cr) (auto simp: pushRule_def split: ruleItem.splits)

lemma normalizeRules_RawArray:
  "normalizeRules (RawArray items) =
     (if RuleNull \<in> set items then Inl TypeError else Inr (stringsOf items, customsOf items))"
  by (simp add: normalizeRules_def pushRules_partition)

lemma stringsOf_append: "stringsOf (xs @ ys) = stringsOf xs @ stringsOf ys"
  by (induction xs) (simp_all split: ruleItem.splits)

lemma customsOf_append: "customsOf (xs @ ys) = customsOf xs @ customsOf ys"
  by (induction xs) (simp_all split: ruleItem.splits)

text \<open>A token that every chain passes through unchanged, and that is neither \<open>integer\<close>
  nor \<open>numeric\<close>, can be removed from the rules.\<close>

lemma fieldValidator_ignores:
  assumes id: "\<And>a chain. applyRule js f a chain t = Inr chain"
    and t: "t \<noteq> ''integer''" "t \<noteq> ''numeric''"
  shows "fieldValidator js f (RawArray (xs @ RuleString t # ys)) = fieldValidator js f (RawArray (xs @ ys))"
proof -
  let ?pre = "stringsOf xs" and ?post = "stringsOf ys"
  have tag: "numericTagged (?pre @ t # ?post) = numericTagged (?pre @ ?post)"
    using t by (auto simp: numericTagged_def)
  have "forEachRule js f (?pre @ t # ?post) (Chain (check f)) (?pre @ t # ?post) =
        forEachRule js f (?pre @ t # ?post) (Chain (check f)) (?pre @ ?post)"
    by (rule forEachRule_skip) (rule id)
  also have "\<dots> = forEachRule js f (?pre @ ?post) (Chain (check f)) (?pre @ ?post)"
    by (rule forEachRule_tagged) (rule tag)
  finally show ?thesis
    by (simp add: fieldValidator_def normalizeRules_RawArray stringsOf_append customsOf_append)
qed

lemma applyParamRule_unrecognized:
  "n \<notin> set recognizedParamRules \<Longrightarrow> applyParamRule js chain f n p a = Inr chain"
  by (simp add: applyParamRule_def recognizedParamRules_def)

lemma token_name: "CHR '':'' \<notin> set n \<Longrightarrow>
  applyRule js f a chain (n @ CHR '':'' # p) = applyParamRule js chain f n p a"
  by (simp add: applyRule_def takeWhile_before dropWhile_after)

lemma forEachRule_append:
  "forEachRule js f a chain (xs @ ys) =
     (case forEachRule js f a chain xs of
        Inl e \<Rightarrow> Inl e
      | Inr chain' \<Rightarrow> forEachRule js f a chain' ys)"
  by (induction xs arbitrary: chain) (simp_all split: sum.splits)

text \<open>The compiler at a token: once the tokens before \<open>t\<close> have left the chain \<open>c\<close> and
  \<open>t\<close>, given the field's whole token list, turns it into \<open>c'\<close>, the field's validator is
  what the remaining tokens and the custom predicates make of \<open>c'\<close>.\<close>

lemma fieldValidator_at_token:
  assumes norm: "normalizeRules raw = Inr (pre @ t # post, customs)"
    and reach: "forEachRule js f (pre @ t # post) (Chain (check f)) pre = Inr (Chain c)"
    and step: "applyRule js f (pre @ t # post) (Chain c) t = Inr (Chain c')"
  shows "fieldValidator js f raw = restOfField js f (pre @ t # post) post customs c'"
proof -
  have "forEachRule js f (pre @ t # post) (Chain (check f)) (pre @ t # post) =
        forEachRule js f (pre @ t # post) (Chain c') post"
    using reach step by (simp add: forEachRule_append)
  then show ?thesis by (simp add: fieldValidator_def norm restOfField_def)
qed




lemma runChain_check: "runChain js (check f) b = (b, [])"
  by (simp add: runChain_def runStack_def check_def)

lemma fieldValidator_RawString:
  "fieldValidator js f (RawString s) = fieldValidator js f (RawArray (map RuleString (split (CHR ''|'') s)))"
proof -
  have a: "stringsOf (map RuleString ts) = ts" for ts :: "string list"
    by (induction ts) simp_all
  have b: "customsOf (map RuleString ts) = []" for ts :: "string list"
    by (induction ts) simp_all
  have c: "RuleNull \<notin> set (map RuleString ts)" for ts :: "string list"
    by auto
  show ?thesis
    by (simp only: fieldValidator_def normalizeRules_RawArray a b c if_False)
      (simp add: normalizeRules_def)
qed

text \<open>
  Claim C3. A \<open>required_if\<close>, \<open>required_unless\<close> or \<open>prohibited_if\<close> rule whose parameter has
  no comma raises nothing and returns the chain as it was: the field's validator is the one
  compiled without the token, and a field with that rule alone has an empty chain, which
  accepts every record.
\<close>

theorem cross_field_without_comma_is_noop:
  assumes n: "n \<in> set [''required_if'', ''required_unless'', ''prohibited_if'']"
    and params: "CHR '','' \<notin> set params"
  shows "applyParamRule js chain f n params allRules = Inr chain \<and>
         applyRule js f allRules chain (n @ '':'' @ params) = Inr chain \<and>
         fieldValidator js f (RawArray (xs @ RuleString (n @ '':'' @ params) # ys)) =
           fieldValidator js f (RawArray (xs @ ys)) \<and>
         fieldValidator js f (RawArray [RuleString (n @ '':'' @ params)]) = Inr (Chain (check f)) \<and>
         runChain js (check f) b = (b, [])"
proof -
  let ?t = "n @ '':'' @ params"
  have colon: "CHR '':'' \<notin> set n" using n by auto
  have p: "applyParamRule js chain f n params allRules = Inr chain" for chain allRules
    using n params by (auto simp: applyParamRule_def)
  have r: "applyRule js f allRules chain ?t = Inr chain" for chain allRules
    using token_name [OF colon, of js f allRules chain params] p by simp
  have ne: "?t \<noteq> ''integer''" "?t \<noteq> ''numeric''" using n by auto
  have rm: "fieldValidator js f (RawArray (xs @ RuleString ?t # ys)) = fieldValidator js f (RawArray (xs @ ys))" for xs ys
    by (rule fieldValidator_ignores) (rule r, rule ne, rule ne)
  have single: "fieldValidator js f (RawArray [RuleString ?t]) = Inr (Chain (check f))"
    using rm [of "[]" "[]"] by (simp add: fieldValidator_def normalizeRules_def)
  show ?thesis using p r rm single runChain_check by blast
qed

theorem cross_field_without_comma_is_noop_witness:
  "''required_if'' \<in> set [''required_if'', ''required_unless'', ''prohibited_if''] \<and>
   CHR '','' \<notin> set ''role'' \<and>
   fieldValidator exampleBuiltins ''taxId'' (RawArray [RuleString ''required'', RuleString ''required_if:role'']) =
     fieldValidator exampleBuiltins ''taxId'' (RawArray [RuleString ''required'']) \<and>
   fieldValidator exampleBuiltins ''taxId'' (RawArray [RuleString ''required_if:role'']) = Inr (Chain (check ''taxId''))"
  using cross_field_without_comma_is_noop [of "''required_if''" "''role''" exampleBuiltins
      "Chain (check ''taxId'')" "''taxId''" "[]" "[RuleString ''required'']" "[]" Map.empty]
  by simp

text \<open>
  Claim C9. A token with a colon whose name before the first colon is not a recognized
  parameterized rule raises nothing and returns the chain unchanged; the field's validator
  is the one compiled without the token.
\<close>

theorem unrecognized_param_rule_ignored:
  assumes colon: "CHR '':'' \<in> set t"
    and name: "takeWhile (\<lambda>x. x \<noteq> CHR '':'') t \<notin> set recognizedParamRules"
  shows "applyParamRule js chain f (takeWhile (\<lambda>x. x \<noteq> CHR '':'') t) p allRules = Inr chain \<and>
         applyRule js f allRules chain t = Inr chain \<and>
         fieldValidator js f (RawArray (xs @ RuleString t # ys)) = fieldValidator js f (RawArray (xs @ ys))"
proof -
  have p: "applyParamRule js chain f (takeWhile (\<lambda>x. x \<noteq> CHR '':'') t) p allRules = Inr chain"
    for chain p allRules
    using name by (rule applyParamRule_unrecognized)
  have r: "applyRule js f allRules chain t = Inr chain" for chain allRules
    using colon p by (simp add: applyRule_def)
  have ne: "t \<noteq> ''integer''" "t \<noteq> ''numeric''" using colon by auto
  have "fieldValidator js f (RawArray (xs @ RuleString t # ys)) = fieldValidator js f (RawArray (xs @ ys))"
    by (rule fieldValidator_ignores) (rule r, rule ne, rule ne)
  then show ?thesis using p r by blast
qed

theorem unrecognized_param_rule_ignored_witness:
  "CHR '':'' \<in> set ''size:10'' \<and>
   takeWhile (\<lambda>x. x \<noteq> CHR '':'') ''size:10'' \<notin> set recognizedParamRules \<and>
   applyRule exampleBuiltins ''name'' [''size:10''] (Chain (check ''name'')) ''size:10'' = Inr (Chain (check ''name'')) \<and>
   fieldValidator exampleBuiltins ''name'' (RawArray [RuleString ''required'', RuleString ''size:10'']) =
     fieldValidator exampleBuiltins ''name'' (RawArray [RuleString ''required''])"
  using unrecognized_param_rule_ignored [of "''size:10''" exampleBuiltins "Chain (check ''name'')" "''name''"
      "''10''" "[''size:10'']" "[RuleString ''required'']" "[]"]
  by (simp add: recognizedParamRules_def)

text \<open>A token without a colon that the table lookup does not find is ignored.\<close>

lemma unknown_basic_rule_ignored:
  assumes colon: "CHR '':'' \<notin> set t"
    and missing: "(basicValidators t :: 'n tableEntry) = Missing"
  shows "fieldValidator (js :: 'n builtins) f (RawArray (xs @ RuleString t # ys)) =
         fieldValidator js f (RawArray (xs @ ys))"
proof -
  have r: "applyRule js f allRules chain t = Inr chain" for chain allRules
    using colon missing by (simp add: applyRule_def)
  have ne: "t \<noteq> ''integer''" "t \<noteq> ''numeric''"
    using missing by (auto simp: basicValidators_def)
  show ?thesis
    by (rule fieldValidator_ignores) (rule r, rule ne, rule ne)
qed

text \<open>
  Claim C4 says that a token without a colon that is not a known basic rule is ignored. It
  is, when the lookup in the table finds nothing (\<open>unknown_basic_rule_ignored\<close>). The
  lookup also finds the names of \<open>Object.prototype\<close>: the token \<open>__proto__\<close> makes
  \<open>makeValidators\<close> throw, and \<open>toString\<close> leaves a string where the chain was.
\<close>

theorem proto_token_raises:
  "fieldValidator js f (RawString ''__proto__'') = Inl TypeError \<and>
   fieldValidator js f (RawString ''required|__proto__'') = Inl TypeError \<and>
   makeValidators js [(''name'', RawString ''__proto__'')] = Inl TypeError \<and>
   fieldValidator js f (RawString ''toString'') = Inr (NotAChain JOther) \<and>
   fieldValidator js f (RawString []) = Inr (Chain (check f))"
  by (simp add: fieldValidator_def normalizeRules_def applyRule_def basicValidators_def call_def)

section \<open>Properties of the runner\<close>

lemma runStack_append:
  "runStack js c (xs @ ys) st = runStack js c ys (runStack js c xs st)"
  by (simp add: runStack_def)

lemma runItem_halted: "halted st \<Longrightarrow> runItem js c st i = st"
  by (simp add: runItem_def)

lemma runStack_halted: "halted st \<Longrightarrow> runStack js c items st = st"
  by (induction items) (simp_all add: runStack_def runItem_halted)

lemma runItem_frame: "path c \<noteq> f \<Longrightarrow> body (runItem js c st i) f = body st f"
  by (cases i) (auto simp: runItem_def Let_def addError_def setData_def split: outcome.splits)

lemma runItem_errors:
  "\<exists>more. errors (runItem js c st i) = errors st @ more \<and> filter (\<lambda>e. fst e \<noteq> path c) more = []"
  by (cases i) (auto simp: runItem_def Let_def addError_def setData_def split: outcome.splits)

lemma runStack_frame: "path c \<noteq> f \<Longrightarrow> body (runStack js c items st) f = body st f"
proof (induction items arbitrary: st)
  case Nil
  then show ?case by (simp add: runStack_def)
next
  case (Cons i items)
  have "runStack js c (i # items) st = runStack js c items (runItem js c st i)"
    by (simp add: runStack_def)
  then show ?case using Cons runItem_frame [of c f js st i] by simp
qed

lemma runStack_errors:
  "\<exists>more. errors (runStack js c items st) = errors st @ more \<and> filter (\<lambda>e. fst e \<noteq> path c) more = []"
proof (induction items arbitrary: st)
  case Nil
  then show ?case by (simp add: runStack_def)
next
  case (Cons i items)
  have step: "runStack js c (i # items) st = runStack js c items (runItem js c st i)"
    by (simp add: runStack_def)
  obtain m1 where m1: "errors (runItem js c st i) = errors st @ m1" "filter (\<lambda>e. fst e \<noteq> path c) m1 = []"
    using runItem_errors by blast
  obtain m2 where m2: "errors (runStack js c items (runItem js c st i)) = errors (runItem js c st i) @ m2"
      "filter (\<lambda>e. fst e \<noteq> path c) m2 = []"
    using Cons.IH by blast
  show ?case using step m1 m2 by (intro exI [of _ "m1 @ m2"]) simp
qed

lemma runChain_frame:
  assumes "path c \<noteq> f"
  shows "fst (runChain js c b) f = b f" and "filter (\<lambda>e. fst e = f) (snd (runChain js c b)) = []"
proof -
  let ?st = "\<lparr>body = b, errors = [], halted = False\<rparr>"
  show "fst (runChain js c b) f = b f"
    using runStack_frame [OF assms, of js "stack c" ?st] by (simp add: runChain_def Let_def)
  obtain more where more: "errors (runStack js c (stack c) ?st) = more" "filter (\<lambda>e. fst e \<noteq> path c) more = []"
    using runStack_errors [of js c "stack c" ?st] by auto
  have "filter (\<lambda>e. fst e = f) more = []"
    using more(2) assms by (auto simp: filter_empty_conv)
  then show "filter (\<lambda>e. fst e = f) (snd (runChain js c b)) = []"
    using more(1) by (simp add: runChain_def Let_def)
qed

lemma runAll_frame:
  "list_all (\<lambda>c. path c \<noteq> f) cs \<Longrightarrow>
   fst (runAll js cs b) f = b f \<and> filter (\<lambda>e. fst e = f) (snd (runAll js cs b)) = []"
proof (induction cs arbitrary: b)
  case Nil
  then show ?case by simp
next
  case (Cons c cs)
  obtain b1 e1 where r1: "runChain js c b = (b1, e1)" by (cases "runChain js c b")
  obtain b2 e2 where r2: "runAll js cs b1 = (b2, e2)" by (cases "runAll js cs b1")
  have c: "path c \<noteq> f" and cs: "list_all (\<lambda>c. path c \<noteq> f) cs" using Cons.prems by simp_all
  have "b1 f = b f" "filter (\<lambda>e. fst e = f) e1 = []"
    using runChain_frame [OF c, of js b] r1 by simp_all
  moreover have "b2 f = b1 f" "filter (\<lambda>e. fst e = f) e2 = []"
    using Cons.IH [OF cs, of b1] r2 by simp_all
  ultimately show ?case using r1 r2 by simp
qed

lemma runAll_append:
  "runAll js (xs @ ys) b =
     (case runAll js xs b of (b1, e1) \<Rightarrow> (case runAll js ys b1 of (b2, e2) \<Rightarrow> (b2, e1 @ e2)))"
  by (induction xs arbitrary: b) (auto split: prod.splits)

lemma addItem_simps:
  "path (addItem i c) = path c" "stack (addItem i c) = stack c @ [i]"
  "optionalMode (addItem i c) = optionalMode c"
  by (simp_all add: addItem_def)

lemma withMessage_addItem:
  "withMessage m (addItem (StandardValidation v neg msg) c) = addItem (StandardValidation v neg (Some m)) c"
  "withMessage m (addItem (CustomValidation g msg) c) = addItem (CustomValidation g (Some m)) c"
  by (simp_all add: withMessage_def addItem_def)

lemmas builder_defs = bail_def standard_def custom_def notEmpty_def isString_def isArray_def
  isObject_def chainTrim_def customSanitizer_def

lemma basic_validator_extends:
  assumes "(basicValidators r :: 'n tableEntry) = Own v"
  shows "path (v c f) = path c \<and> (\<exists>more. stack (v c f) = stack c @ more) \<and>
         (optionalMode (v c f) = optionalMode c \<or> r = ''optional'' \<or> r = ''nullable'')"
  using assms
  by (auto simp: basicValidators_def builder_defs withMessage_addItem addItem_simps
      optional_def optionalNullable_def split: if_splits)

lemma applyParamRule_Chain:
  assumes "applyParamRule js (Chain c0) f n p a = Inr (Chain c)"
  shows "path c = path c0 \<and> (\<exists>more. stack c = stack c0 @ more) \<and> optionalMode c = optionalMode c0"
  using assms
  by (auto simp: applyParamRule_def call_def Let_def builder_defs withMessage_addItem addItem_simps
      split: if_splits)

lemma applyRule_Chain:
  assumes "applyRule (js :: 'n builtins) f a (Chain c0) r = Inr (Chain c)"
  shows "path c = path c0 \<and> (\<exists>more. stack c = stack c0 @ more) \<and>
         (optionalMode c = optionalMode c0 \<or> r = ''optional'' \<or> r = ''nullable'')"
proof (cases "CHR '':'' \<in> set r")
  case True
  then show ?thesis using assms applyParamRule_Chain by (fastforce simp: applyRule_def)
next
  case False
  show ?thesis
  proof (cases "basicValidators r :: 'n tableEntry")
    case (Own v)
    then have "c = v c0 f" using assms False by (simp add: applyRule_def call_def)
    then show ?thesis using basic_validator_extends [OF Own, of c0 f] by simp
  qed (use assms False in \<open>auto simp: applyRule_def\<close>)
qed

lemma applyRule_junk:
  assumes "applyRule (js :: 'n builtins) f a (NotAChain j) r = Inr cv"
  shows "\<exists>j'. cv = NotAChain j'"
proof (cases "CHR '':'' \<in> set r")
  case True
  then show ?thesis using assms
    by (fastforce simp: applyRule_def applyParamRule_def call_def Let_def split: if_splits junk.splits)
next
  case False
  then show ?thesis using assms
    by (cases "basicValidators r :: 'n tableEntry") (auto simp: applyRule_def call_def)
qed

lemma forEachRule_junk:
  "forEachRule js f a (NotAChain j) rs = Inr cv \<Longrightarrow> \<exists>j'. cv = NotAChain j'"
proof (induction rs arbitrary: j)
  case Nil
  then show ?case by auto
next
  case (Cons r rs)
  then obtain cv1 where 1: "applyRule js f a (NotAChain j) r = Inr cv1" "forEachRule js f a cv1 rs = Inr cv"
    by (auto split: sum.splits)
  then obtain j1 where "cv1 = NotAChain j1" using applyRule_junk by blast
  then show ?case using 1 Cons.IH by blast
qed

lemma forEachRule_Chain:
  "forEachRule js f a (Chain c0) rs = Inr (Chain c) \<Longrightarrow>
   path c = path c0 \<and> (\<exists>more. stack c = stack c0 @ more) \<and>
   (optionalMode c = optionalMode c0 \<or> ''optional'' \<in> set rs \<or> ''nullable'' \<in> set rs)"
proof (induction rs arbitrary: c0)
  case Nil
  then show ?case by simp
next
  case (Cons r rs)
  then obtain cv1 where 1: "applyRule js f a (Chain c0) r = Inr cv1" "forEachRule js f a cv1 rs = Inr (Chain c)"
    by (auto split: sum.splits)
  show ?case
  proof (cases cv1)
    case (Chain c1)
    have a: "path c1 = path c0 \<and> (\<exists>more. stack c1 = stack c0 @ more) \<and>
         (optionalMode c1 = optionalMode c0 \<or> r = ''optional'' \<or> r = ''nullable'')"
      using 1(1) Chain applyRule_Chain by blast
    have b: "path c = path c1 \<and> (\<exists>more. stack c = stack c1 @ more) \<and>
         (optionalMode c = optionalMode c1 \<or> ''optional'' \<in> set rs \<or> ''nullable'' \<in> set rs)"
      using 1(2) Chain Cons.IH by blast
    from a b show ?thesis by auto
  next
    case (NotAChain j)
    then show ?thesis using 1(2) forEachRule_junk by blast
  qed
qed

lemma forEachCustom_Chain:
  "forEachCustom cv gs = Inr (Chain c) \<Longrightarrow>
   \<exists>c0. cv = Chain c0 \<and> c = c0\<lparr>stack := stack c0 @ map (\<lambda>g. CustomValidation g None) gs\<rparr>"
proof (induction gs arbitrary: cv)
  case Nil
  then show ?case by simp
next
  case (Cons g gs)
  then obtain cv1 where 1: "call cv (custom g) = Inr cv1" "forEachCustom cv1 gs = Inr (Chain c)"
    by (auto split: sum.splits)
  then obtain c1 where c1: "cv1 = Chain c1" "c = c1\<lparr>stack := stack c1 @ map (\<lambda>g. CustomValidation g None) gs\<rparr>"
    using Cons.IH by blast
  obtain c0 where c0: "cv = Chain c0" "c1 = custom g c0"
    using 1(1) c1(1) by (auto simp: call_def split: chainVar.splits)
  show ?case using c0 c1 by (simp add: custom_def addItem_def)
qed

lemma forEachCustom_of_Chain:
  "forEachCustom (Chain c0) gs = Inr (Chain (c0\<lparr>stack := stack c0 @ map (\<lambda>g. CustomValidation g None) gs\<rparr>))"
  by (induction gs arbitrary: c0) (simp_all add: call_def custom_def addItem_def)

lemma required_blank_run:
  assumes p: "path c = f"
    and s: "stack c = StandardValidation IsEmpty True (Some (f @ '' is required'')) # Bail # rest"
    and v: "fieldValue b f = Undefined \<and> optionalMode c = NotOptional \<or> fieldValue b f = Str []"
  shows "runChain js c b = (b, [(f, f @ '' is required'')])"
proof -
  let ?st0 = "\<lparr>body = b, errors = [], halted = False\<rparr>"
  let ?st1 = "\<lparr>body = b, errors = [(f, f @ '' is required'')], halted = False\<rparr>"
  let ?st2 = "\<lparr>body = b, errors = [(f, f @ '' is required'')], halted = True\<rparr>"
  have ns: "\<not> skipped (optionalMode c) (fieldValue b f)"
    using v by (auto simp: skipped_def split: optionalMode.splits)
  have 1: "runItem js c ?st0 (StandardValidation IsEmpty True (Some (f @ '' is required''))) = ?st1"
    using p ns v
    by (auto simp: runItem_def Let_def evToString_def evalStd_def messageOf_def reported_def)
  have 2: "runItem js c ?st1 Bail = ?st2"
    using p ns by (simp add: runItem_def Let_def)
  have 3: "runStack js c rest ?st2 = ?st2"
    by (rule runStack_halted) simp
  have "runStack js c (stack c) ?st0 = ?st2"
    using 1 2 3 by (simp add: s runStack_def)
  then show ?thesis by (simp add: runChain_def)
qed

lemma required_first_stack:
  assumes norm: "normalizeRules raw = Inr (''required'' # ts, customs)"
    and compiled: "fieldValidator (js :: 'n builtins) f raw = Inr (Chain c)"
  shows "path c = f \<and>
         (\<exists>rest. stack c = StandardValidation IsEmpty True (Some (f @ '' is required'')) # Bail # rest) \<and>
         (optionalMode c = NotOptional \<or> ''optional'' \<in> set ts \<or> ''nullable'' \<in> set ts)"
proof -
  let ?all = "''required'' # ts"
  let ?c0 = "bail (withMessage (f @ '' is required'') (notEmpty (check f :: 'n chain)))"
  obtain cv where fr: "forEachRule js f ?all (Chain (check f)) ?all = Inr cv"
    and fc: "forEachCustom cv customs = Inr (Chain c)"
    using compiled norm by (auto simp: fieldValidator_def split: sum.splits)
  obtain c1 where c1: "cv = Chain c1" "c = c1\<lparr>stack := stack c1 @ map (\<lambda>g. CustomValidation g None) customs\<rparr>"
    using forEachCustom_Chain [OF fc] by blast
  have a0: "applyRule js f ?all (Chain (check f)) ''required'' = Inr (Chain ?c0)"
    by (simp add: applyRule_def basicValidators_def call_def)
  have rest: "forEachRule js f ?all (Chain ?c0) ts = Inr (Chain c1)"
    using fr a0 c1(1) by simp
  have c0: "path ?c0 = f" "stack ?c0 = [StandardValidation IsEmpty True (Some (f @ '' is required'')), Bail]"
      "optionalMode ?c0 = NotOptional"
    by (simp_all add: bail_def notEmpty_def withMessage_addItem addItem_simps check_def)
  note ext = forEachRule_Chain [OF rest]
  from ext obtain more where more: "stack c1 = stack ?c0 @ more" by blast
  from ext more have m: "path c1 = path ?c0" "stack c1 = stack ?c0 @ more"
      "optionalMode c1 = optionalMode ?c0 \<or> ''optional'' \<in> set ts \<or> ''nullable'' \<in> set ts"
    by simp_all
  have "path c = f" using c1(2) m(1) c0(1) by simp
  moreover have "stack c = StandardValidation IsEmpty True (Some (f @ '' is required'')) # Bail #
      (more @ map (\<lambda>g. CustomValidation g None) customs)"
    using c1(2) m(2) c0(2) by simp
  moreover have "optionalMode c = NotOptional \<or> ''optional'' \<in> set ts \<or> ''nullable'' \<in> set ts"
    using c1(2) m(3) c0(3) by simp
  ultimately show ?thesis by blast
qed

text \<open>
  Claim C2, amended. For a field whose first rule token is \<open>required\<close>: on a request in
  which the field is the empty string, or is missing while no token of the field is
  \<open>optional\<close> or \<open>nullable\<close>, the field's chain reports exactly one error, \<open><field> is
  required\<close>, and leaves the request as it is (the \<open>bail\<close> halts the rest of the chain); among
  the chains of a route whose other chains are for other fields, that is the only error of
  the field, and \<open>validate\<close> answers 422 with the messages.
\<close>

theorem required_first_single_message:
  assumes norm: "normalizeRules raw = Inr (''required'' # ts, customs)"
    and compiled: "fieldValidator js f raw = Inr (Chain c)"
    and blank: "b f = Some (Str []) \<or> (b f = None \<and> ''optional'' \<notin> set ts \<and> ''nullable'' \<notin> set ts)"
    and others: "list_all (\<lambda>c'. path c' \<noteq> f) (pre @ post)"
  shows "runChain js c b = (b, [(f, f @ '' is required'')]) \<and>
         filter (\<lambda>e. fst e = f) (snd (runAll js (pre @ c # post) b)) = [(f, f @ '' is required'')] \<and>
         snd (handleRequest js (pre @ c # post) b) =
           Status422 (map snd (snd (runAll js (pre @ c # post) b)))"
proof -
  let ?msg = "(f, f @ '' is required'')"
  obtain rest where c: "path c = f"
      "stack c = StandardValidation IsEmpty True (Some (f @ '' is required'')) # Bail # rest"
      "optionalMode c = NotOptional \<or> ''optional'' \<in> set ts \<or> ''nullable'' \<in> set ts"
    using required_first_stack [OF norm compiled] by blast
  have run: "runChain js c b' = (b', [?msg])" if "b' f = b f" for b'
  proof -
    have "fieldValue b' f = Undefined \<and> optionalMode c = NotOptional \<or> fieldValue b' f = Str []"
      using blank c(3) that by (auto simp: fieldValue_def)
    then show ?thesis using c(1,2) by (intro required_blank_run)
  qed
  have pre: "list_all (\<lambda>c'. path c' \<noteq> f) pre" and post: "list_all (\<lambda>c'. path c' \<noteq> f) post"
    using others by simp_all
  obtain b1 e1 where r1: "runAll js pre b = (b1, e1)" by (cases "runAll js pre b")
  obtain b2 e2 where r2: "runAll js post b1 = (b2, e2)" by (cases "runAll js post b1")
  have f1: "b1 f = b f" "filter (\<lambda>e. fst e = f) e1 = []"
    using runAll_frame [OF pre, of js b] r1 by simp_all
  have f2: "filter (\<lambda>e. fst e = f) e2 = []"
    using runAll_frame [OF post, of js b1] r2 by simp
  have all: "runAll js (pre @ c # post) b = (b2, e1 @ ?msg # e2)"
    using r1 r2 run [of b1] f1(1) by (simp add: runAll_append)
  have "snd (handleRequest js (pre @ c # post) b) = Status422 (map snd (e1 @ ?msg # e2))"
    by (simp add: handleRequest_def all validate_def)
  then show ?thesis using run [of b] all f1 f2 by simp
qed

theorem required_first_single_message_witness:
  "normalizeRules (RawString ''required|string|min:3'' :: jsnum rawRules) = Inr (''required'' # [''string'', ''min:3''], []) \<and>
   ((Map.empty :: jsnum body) ''name'' = None \<and> ''optional'' \<notin> set [''string'', ''min:3''] \<and>
      ''nullable'' \<notin> set [''string'', ''min:3'']) \<and>
   list_all (\<lambda>c'. path c' \<noteq> ''name'') ([] @ [check ''email'' :: jsnum chain]) \<and>
   (\<exists>c. fieldValidator exampleBuiltins ''name'' (RawString ''required|string|min:3'') = Inr (Chain c) \<and>
        runChain exampleBuiltins c Map.empty = (Map.empty, [(''name'', ''name is required'')]) \<and>
        snd (handleRequest exampleBuiltins ([] @ c # [check ''email'']) Map.empty) =
          Status422 [''name is required''])"
proof -
  have norm: "normalizeRules (RawString ''required|string|min:3'' :: jsnum rawRules) = Inr (''required'' # [''string'', ''min:3''], [])"
    by (simp add: normalizeRules_def)
  have "\<exists>c. fieldValidator exampleBuiltins ''name'' (RawString ''required|string|min:3'') = Inr (Chain c)"
    by (simp add: fieldValidator_def norm applyRule_def basicValidators_def applyParamRule_def call_def Let_def)
  then obtain c where c: "fieldValidator exampleBuiltins ''name'' (RawString ''required|string|min:3'') = Inr (Chain c)"
    by blast
  have blank: "(Map.empty :: jsnum body) ''name'' = Some (Str []) \<or>
      ((Map.empty :: jsnum body) ''name'' = None \<and> ''optional'' \<notin> set [''string'', ''min:3''] \<and>
       ''nullable'' \<notin> set [''string'', ''min:3''])"
    by simp
  have others: "list_all (\<lambda>c'. path c' \<noteq> ''name'') ([] @ [check ''email'' :: jsnum chain])"
    by (simp add: check_def)
  have e: "runAll exampleBuiltins [check ''email''] b = (b, [])" for b :: "jsnum body"
    by (simp add: runChain_def runStack_def check_def)
  note t = required_first_single_message [OF norm c blank others]
  have "snd (runAll exampleBuiltins ([] @ c # [check ''email'']) Map.empty) = [(''name'', ''name is required'')]"
    using t e by simp
  then show ?thesis using t c norm others by simp
qed

text \<open>
  Claim C2, as stated: every field tagged \<open>required\<close> that is missing or empty gets exactly
  the one message \<open><field> is required\<close> and the request is rejected. Not so when a rule
  stands before \<open>required\<close> or the chain is optional: on a request without the field,
  \<open>default:Guest|required\<close> fills the value in and accepts; \<open>string|required\<close> reports two
  messages; \<open>required|optional\<close> skips the whole chain and accepts. (No built-in of
  \<open>exampleBuiltins\<close> is consulted on the way.)
\<close>

theorem required_not_always_single_message_counterexample:
  "map_option snd (validateRecord exampleBuiltins [(''nickname'', RawString ''default:Guest|required'')] Map.empty) =
     Some Next \<and>
   map_option snd (validateRecord exampleBuiltins [(''name'', RawString ''string|required'')] Map.empty) =
     Some (Status422 [''name must be a string'', ''name is required'']) \<and>
   map_option snd (validateRecord exampleBuiltins [(''name'', RawString ''required|optional'')] Map.empty) =
     Some Next"
  by code_simp

lemma rtrim_prefix: "\<exists>w. s = rtrim s @ w"
proof -
  have "rev (dropWhile isSpace (rev s)) @ rev (takeWhile isSpace (rev s)) =
        rev (takeWhile isSpace (rev s) @ dropWhile isSpace (rev s))"
    by (simp only: rev_append)
  also have "\<dots> = s"
    by (simp only: takeWhile_dropWhile_id rev_rev_ident)
  finally have "s = rtrim s @ rev (takeWhile isSpace (rev s))"
    by (simp only: rtrim_def)
  then show ?thesis ..
qed

lemma trim_idem: "trim (trim s) = trim s"
proof -
  let ?u = "ltrim s"
  have lu: "ltrim ?u = ?u" by (simp add: ltrim_def)
  have l: "ltrim (rtrim ?u) = rtrim ?u"
  proof (cases "rtrim ?u")
    case Nil
    then show ?thesis by (simp add: ltrim_def)
  next
    case (Cons x xs)
    obtain w where w: "?u = rtrim ?u @ w" using rtrim_prefix by blast
    then have "hd ?u = x" using Cons by (metis append_Cons list.sel(1))
    moreover have "?u \<noteq> []" using w Cons by auto
    ultimately have "\<not> isSpace x"
      using lu by (metis dropWhile_eq_self_iff ltrim_def)
    then show ?thesis using Cons by (simp add: ltrim_def)
  qed
  have r: "rtrim (rtrim ?u) = rtrim ?u" by (simp add: rtrim_def)
  show ?thesis using l r by (simp add: trim_def)
qed

lemma runItem_cong_chain:
  "path c = path c' \<Longrightarrow> optionalMode c = optionalMode c' \<Longrightarrow> runItem js c = runItem js c'"
  by (intro ext) (simp add: runItem_def)

lemma runStack_cong_chain:
  "path c = path c' \<Longrightarrow> optionalMode c = optionalMode c' \<Longrightarrow> runStack js c = runStack js c'"
  by (intro ext) (simp add: runStack_def runItem_cong_chain [of c c'])

text \<open>What a token adds to a chain does not depend on the chain.\<close>

lemma applyRule_uniform:
  assumes "applyRule (js :: 'n builtins) f a (Chain c0) r = Inr (Chain c)"
  shows "\<exists>d. applyRule js f a (Chain d0) r = Inr (Chain d) \<and>
              stack d = stack d0 @ drop (length (stack c0)) (stack c)"
proof (cases "CHR '':'' \<in> set r")
  case True
  then show ?thesis using assms
    by (auto simp: applyRule_def applyParamRule_def call_def Let_def builder_defs
        withMessage_addItem addItem_simps split: if_splits)
next
  case False
  show ?thesis
  proof (cases "basicValidators r :: 'n tableEntry")
    case (Own v)
    then show ?thesis using assms False
      by (auto simp: applyRule_def call_def basicValidators_def builder_defs withMessage_addItem
          addItem_simps optional_def optionalNullable_def split: if_splits)
  qed (use assms False in \<open>auto simp: applyRule_def\<close>)
qed

lemma applyRule_appends:
  assumes "applyRule js f a (Chain c0) r = Inr (Chain c)"
  shows "stack c = stack c0 @ tokenItems js f a r"
proof -
  obtain more where more: "stack c = stack c0 @ more"
    using applyRule_Chain [OF assms] by blast
  obtain d where d: "applyRule js f a (Chain (check f)) r = Inr (Chain d)"
      "stack d = stack (check f) @ drop (length (stack c0)) (stack c)"
    using applyRule_uniform [OF assms, of "check f"] by blast
  have "tokenItems js f a r = more"
    using d more by (simp add: tokenItems_def check_def)
  then show ?thesis using more by simp
qed

lemma forEachRule_stack:
  "forEachRule js f a (Chain c0) rs = Inr (Chain c) \<Longrightarrow>
   stack c = stack c0 @ concat (map (tokenItems js f a) rs)"
proof (induction rs arbitrary: c0)
  case Nil
  then show ?case by simp
next
  case (Cons r rs)
  then obtain cv1 where 1: "applyRule js f a (Chain c0) r = Inr cv1" "forEachRule js f a cv1 rs = Inr (Chain c)"
    by (auto split: sum.splits)
  show ?case
  proof (cases cv1)
    case (Chain c1)
    have "stack c1 = stack c0 @ tokenItems js f a r"
      using 1(1) Chain by (intro applyRule_appends) simp
    moreover have "stack c = stack c1 @ concat (map (tokenItems js f a) rs)"
      using 1(2) Chain by (intro Cons.IH) simp
    ultimately show ?thesis by simp
  next
    case (NotAChain j)
    then show ?thesis using 1(2) forEachRule_junk by blast
  qed
qed

lemma runStack_concat:
  "runStack js c (concat (map F ts)) st = foldl (\<lambda>s t. runStack js c (F t) s) st ts"
  by (induction ts arbitrary: st) (simp_all add: runStack_append, simp add: runStack_def)

lemma runStack_customs:
  "runStack js c (map (\<lambda>g. CustomValidation g None) gs) st =
     foldl (\<lambda>s g. runItem js c s (CustomValidation g None)) st gs"
  by (simp add: runStack_def foldl_map)

text \<open>
  Claim C6. When a sequence of string tokens and custom predicates compiles to a chain, the
  stack of the chain is what each string token adds, token after token in the order of the
  sequence, followed by the custom predicates in the order of the sequence; running it is
  running the tokens' items in that order and then the custom predicates in theirs; and
  every sequence with the same string tokens in the same order and the same custom
  predicates in the same order, wherever the predicates stand among the tokens, compiles to
  the same chain. What a token adds is the same on every chain.
\<close>

theorem customs_run_after_strings:
  assumes compiled: "fieldValidator js f (RawArray items) = Inr (Chain c)"
  shows "stack c =
           concat (map (tokenItems js f (stringsOf items)) (stringsOf items)) @
           map (\<lambda>g. CustomValidation g None) (customsOf items) \<and>
         (\<forall>st. runStack js c (stack c) st =
            foldl (\<lambda>s g. runItem js c s (CustomValidation g None))
              (foldl (\<lambda>s t. runStack js c (tokenItems js f (stringsOf items) t) s) st (stringsOf items))
              (customsOf items)) \<and>
         (\<forall>items'. stringsOf items' = stringsOf items \<and> customsOf items' = customsOf items \<and>
              RuleNull \<notin> set items' \<longrightarrow>
            fieldValidator js f (RawArray items') = Inr (Chain c)) \<and>
         (\<forall>allRules c0 c1 t. applyRule js f allRules (Chain c0) t = Inr (Chain c1) \<longrightarrow>
            stack c1 = stack c0 @ tokenItems js f allRules t)"
proof -
  let ?ts = "stringsOf items" and ?gs = "customsOf items"
  have nonull: "RuleNull \<notin> set items"
    using compiled by (auto simp: fieldValidator_def normalizeRules_RawArray split: if_splits)
  obtain cv where fr: "forEachRule js f ?ts (Chain (check f)) ?ts = Inr cv"
    and fc: "forEachCustom cv ?gs = Inr (Chain c)"
    using compiled nonull by (auto simp: fieldValidator_def normalizeRules_RawArray split: sum.splits)
  obtain c1 where c1: "cv = Chain c1" "c = c1\<lparr>stack := stack c1 @ map (\<lambda>g. CustomValidation g None) ?gs\<rparr>"
    using forEachCustom_Chain [OF fc] by blast
  have s1: "stack c1 = concat (map (tokenItems js f ?ts) ?ts)"
    using forEachRule_stack [of js f ?ts "check f" ?ts c1] fr c1(1) by (simp add: check_def)
  have st: "stack c = concat (map (tokenItems js f ?ts) ?ts) @ map (\<lambda>g. CustomValidation g None) ?gs"
    using c1(2) s1 by simp
  have run: "runStack js c (stack c) st =
            foldl (\<lambda>s g. runItem js c s (CustomValidation g None))
              (foldl (\<lambda>s t. runStack js c (tokenItems js f ?ts t) s) st ?ts) ?gs" for st
    by (simp only: st runStack_append runStack_concat runStack_customs)
  have same: "fieldValidator js f (RawArray items') = Inr (Chain c)"
    if "stringsOf items' = ?ts" "customsOf items' = ?gs" "RuleNull \<notin> set items'" for items'
    using that fr fc by (simp add: fieldValidator_def normalizeRules_RawArray)
  show ?thesis using st run same applyRule_appends by blast
qed

theorem customs_run_after_strings_witness:
  "fieldValidator exampleBuiltins ''code''
     (RawArray [RuleCustom (\<lambda>v b. Returns (v = Str ''foo'')), RuleString ''required'',
                RuleCustom (\<lambda>v b. Throws ''never''), RuleString ''email'']) =
     Inr (Chain \<lparr>path = ''code'',
       stack = [StandardValidation IsEmpty True (Some ''code is required''), Bail,
                StandardValidation IsEmail False (Some ''code must be a valid email''),
                CustomValidation (\<lambda>v b. Returns (v = Str ''foo'')) None,
                CustomValidation (\<lambda>v b. Throws ''never'') None],
       optionalMode = NotOptional\<rparr>) \<and>
   tokenItems exampleBuiltins ''code'' [''required'', ''email''] ''required'' =
     [StandardValidation IsEmpty True (Some ''code is required''), Bail] \<and>
   tokenItems exampleBuiltins ''code'' [''required'', ''email''] ''email'' =
     [StandardValidation IsEmail False (Some ''code must be a valid email'')] \<and>
   fieldValidator exampleBuiltins ''code''
     (RawArray [RuleString ''required'', RuleString ''email'',
                RuleCustom (\<lambda>v b. Returns (v = Str ''foo'')), RuleCustom (\<lambda>v b. Throws ''never'')]) =
     Inr (Chain \<lparr>path = ''code'',
       stack = [StandardValidation IsEmpty True (Some ''code is required''), Bail,
                StandardValidation IsEmail False (Some ''code must be a valid email''),
                CustomValidation (\<lambda>v b. Returns (v = Str ''foo'')) None,
                CustomValidation (\<lambda>v b. Throws ''never'') None],
       optionalMode = NotOptional\<rparr>)"
proof -
  let ?items = "[RuleCustom (\<lambda>v b. Returns (v = Str ''foo'')), RuleString ''required'',
                RuleCustom (\<lambda>v b. Throws ''never''), RuleString ''email''] :: jsnum ruleItem list"
  let ?items' = "[RuleString ''required'', RuleString ''email'',
                RuleCustom (\<lambda>v b. Returns (v = Str ''foo'')), RuleCustom (\<lambda>v b. Throws ''never'')] :: jsnum ruleItem list"
  let ?c = "\<lparr>path = ''code'',
       stack = [StandardValidation IsEmpty True (Some ''code is required''), Bail,
                StandardValidation IsEmail False (Some ''code must be a valid email''),
                CustomValidation (\<lambda>v b. Returns (v = Str ''foo'')) None,
                CustomValidation (\<lambda>v b. Throws ''never'') None],
       optionalMode = NotOptional\<rparr> :: jsnum chain"
  have comp: "fieldValidator exampleBuiltins ''code'' (RawArray ?items) = Inr (Chain ?c)"
    by (simp add: fieldValidator_def normalizeRules_def pushRule_def applyRule_def basicValidators_def
        call_def withMessage_def builder_defs addItem_def check_def)
  have t1: "tokenItems exampleBuiltins ''code'' [''required'', ''email''] ''required'' =
     [StandardValidation IsEmpty True (Some ''code is required''), Bail]"
    by (simp add: tokenItems_def applyRule_def basicValidators_def call_def withMessage_def
        builder_defs addItem_def check_def)
  have t2: "tokenItems exampleBuiltins ''code'' [''required'', ''email''] ''email'' =
     [StandardValidation IsEmail False (Some ''code must be a valid email'')]"
    by (simp add: tokenItems_def applyRule_def basicValidators_def call_def withMessage_def
        builder_defs addItem_def check_def)
  note t = customs_run_after_strings [OF comp]
  have "fieldValidator exampleBuiltins ''code'' (RawArray ?items') = Inr (Chain ?c)"
    using t by simp
  then show ?thesis using comp t1 t2 by simp
qed

text \<open>
  Claim C5. A \<open>default:v\<close> token puts one transform on whatever chain it is given; the
  transform returns the string \<open>v\<close> exactly when the value is \<open>undefined\<close>, \<open>null\<close> or the
  empty string, and the value itself otherwise. In a field's token list the transform
  stands where the token stands. When the chain runs it, the field's stored value becomes
  \<open>v\<close> exactly when it was blank and stays what it was otherwise; the chain runs it unless
  an earlier \<open>bail\<close> has halted the field or the chain's optional mode excuses the value,
  and then the request is left as it is. A field with that rule alone leaves every request
  with the field set to \<open>v\<close> when it was blank, and unchanged otherwise, with no error: on
  a request without \<open>nickname\<close>, \<open>default:Guest\<close> leaves \<open>nickname = "Guest"\<close>, and the request
  is accepted.
\<close>

theorem default_fills_blank:
  assumes norm: "normalizeRules raw = Inr (pre @ (''default:'' @ v) # post, customs)"
    and reach: "forEachRule js f (pre @ (''default:'' @ v) # post) (Chain (check f)) pre = Inr (Chain c)"
  shows "\<exists>g. (\<forall>x b. g x b = (if x \<in> {Undefined, Null, Str []} then Str v else x)) \<and>
      (\<forall>allRules c0. applyRule js f allRules (Chain c0) (''default:'' @ v) =
         Inr (Chain (addItem (CustomSanitization g) c0))) \<and>
      fieldValidator js f raw =
        restOfField js f (pre @ (''default:'' @ v) # post) post customs (addItem (CustomSanitization g) c) \<and>
      (\<forall>c' st. runItem js c' st (CustomSanitization g) =
         (if halted st \<or> skipped (optionalMode c') (fieldValue (body st) (path c')) then st
          else if fieldValue (body st) (path c') \<in> {Undefined, Null, Str []}
            then st\<lparr>body := (body st)(path c' \<mapsto> Str v)\<rparr>
          else st)) \<and>
      fieldValidator js f (RawArray [RuleString (''default:'' @ v)]) =
        Inr (Chain (addItem (CustomSanitization g) (check f))) \<and>
      (\<forall>b. runChain js (addItem (CustomSanitization g) (check f)) b =
         ((if fieldValue b f \<in> {Undefined, Null, Str []} then b(f \<mapsto> Str v) else b), [])) \<and>
      (\<exists>c1. fieldValidator js ''nickname'' (RawString ''default:Guest'') = Inr (Chain c1) \<and>
         handleRequest js [c1] Map.empty = ([''nickname'' \<mapsto> Str ''Guest''], Next))"
proof -
  define g :: "'a jsval \<Rightarrow> 'a body \<Rightarrow> 'a jsval"
    where "g = (\<lambda>x b. if x = Undefined \<or> x = Null \<or> x = Str [] then Str v else x)"
  have gx: "g x b = (if x \<in> {Undefined, Null, Str []} then Str v else x)" for x b
    by (simp add: g_def)
  have tok: "applyRule js f a (Chain c0) (''default:'' @ v) = Inr (Chain (addItem (CustomSanitization g) c0))"
    for a c0
    using token_name [of "''default''" js f a "Chain c0" v]
    by (simp add: applyParamRule_def call_def customSanitizer_def g_def)
  have fv: "fieldValidator js f raw =
      restOfField js f (pre @ (''default:'' @ v) # post) post customs (addItem (CustomSanitization g) c)"
    by (rule fieldValidator_at_token [OF norm reach tok])
  have item: "runItem js c' st (CustomSanitization g) =
         (if halted st \<or> skipped (optionalMode c') (fieldValue (body st) (path c')) then st
          else if fieldValue (body st) (path c') \<in> {Undefined, Null, Str []}
            then st\<lparr>body := (body st)(path c' \<mapsto> Str v)\<rparr>
          else st)" for c' st
  proof -
    have same: "st\<lparr>body := (body st)(path c' \<mapsto> Str [])\<rparr> = st" if "fieldValue (body st) (path c') = Str []"
    proof -
      have "body st (path c') = Some (Str [])"
        using that by (auto simp: fieldValue_def split: option.splits)
      then have "(body st)(path c' \<mapsto> Str []) = body st" by (simp add: fun_upd_idem_iff)
      then show ?thesis by simp
    qed
    show ?thesis using same
      by (auto simp: runItem_def Let_def setData_def g_def)
  qed
  have alone: "fieldValidator js f (RawArray [RuleString (''default:'' @ v)]) =
      Inr (Chain (addItem (CustomSanitization g) (check f)))"
    using tok by (simp add: fieldValidator_def normalizeRules_RawArray)
  have run: "runChain js (addItem (CustomSanitization g) (check f)) b =
      ((if fieldValue b f \<in> {Undefined, Null, Str []} then b(f \<mapsto> Str v) else b), [])" for b
    using item [of "addItem (CustomSanitization g) (check f)" "\<lparr>body = b, errors = [], halted = False\<rparr>"]
    by (simp add: runChain_def runStack_def addItem_def check_def skipped_def)
  have nick: "\<exists>c1. fieldValidator js ''nickname'' (RawString ''default:Guest'') = Inr (Chain c1) \<and>
      handleRequest js [c1] Map.empty = ([''nickname'' \<mapsto> Str ''Guest''], Next)"
    by (simp add: fieldValidator_def normalizeRules_def applyRule_def applyParamRule_def call_def
        customSanitizer_def addItem_def check_def handleRequest_def runChain_def runStack_def
        runItem_def skipped_def setData_def fieldValue_def validate_def)
  show ?thesis using gx tok fv item alone run nick by blast
qed

theorem default_fills_blank_witness:
  "normalizeRules (RawString ''string|default:Guest|min:3'' :: jsnum rawRules) =
     Inr ([''string''] @ (''default:'' @ ''Guest'') # [''min:3''], []) \<and>
   (\<exists>c c1. forEachRule exampleBuiltins ''nickname'' ([''string''] @ (''default:'' @ ''Guest'') # [''min:3''])
        (Chain (check ''nickname'')) [''string''] = Inr (Chain c) \<and>
      fieldValidator exampleBuiltins ''nickname'' (RawString ''string|default:Guest|min:3'') = Inr (Chain c1) \<and>
      length (stack c) = 1 \<and> length (stack c1) = 3 \<and> take 1 (stack c1) = stack c \<and>
      fst (runChain exampleBuiltins c1 [''nickname'' \<mapsto> Str []]) ''nickname'' = Some (Str ''Guest''))"
proof -
  have norm: "normalizeRules (RawString ''string|default:Guest|min:3'' :: jsnum rawRules) =
     Inr ([''string''] @ (''default:'' @ ''Guest'') # [''min:3''], [])"
    by (simp add: normalizeRules_def)
  define c :: "jsnum chain" where "c = withMessage ''nickname must be a string'' (isString (check ''nickname''))"
  have reach: "forEachRule exampleBuiltins ''nickname'' ([''string''] @ (''default:'' @ ''Guest'') # [''min:3''])
        (Chain (check ''nickname'')) [''string''] = Inr (Chain c)"
    by (simp add: applyRule_def basicValidators_def call_def c_def)
  obtain g where g: "\<forall>x b. g x b = (if x \<in> {Undefined, Null, Str []} then Str ''Guest'' else x)"
    and fv: "fieldValidator exampleBuiltins ''nickname'' (RawString ''string|default:Guest|min:3'') =
        restOfField exampleBuiltins ''nickname'' ([''string''] @ (''default:'' @ ''Guest'') # [''min:3''])
          [''min:3''] [] (addItem (CustomSanitization g) c)"
    using default_fills_blank [OF norm reach] by blast
  define m :: "jsnum item" where "m = StandardValidation (IsLength (Val (jsParseInt exampleBuiltins ''3'')) NoKey) False
      (Some (''nickname must be at least '' @ jsNumberToString exampleBuiltins (jsParseInt exampleBuiltins ''3'') @ '' characters''))"
  define c1 where "c1 = addItem m (addItem (CustomSanitization g) c)"
  have r: "restOfField exampleBuiltins ''nickname'' ([''string''] @ (''default:'' @ ''Guest'') # [''min:3''])
          [''min:3''] [] (addItem (CustomSanitization g) c) = Inr (Chain c1)"
    by (simp add: restOfField_def applyRule_def applyParamRule_def call_def Let_def withMessage_standard
        c1_def m_def)
  have sc: "stack c = [CustomValidation (\<lambda>v b. Returns (case v of Str s \<Rightarrow> True | _ \<Rightarrow> False))
      (Some ''nickname must be a string'')]" "path c = ''nickname''" "optionalMode c = NotOptional"
    by (simp_all add: c_def isString_def withMessage_custom addItem_def check_def)
  have sc1: "stack c1 = stack c @ [CustomSanitization g, m]" "path c1 = ''nickname''"
      "optionalMode c1 = NotOptional"
    by (simp_all add: c1_def addItem_def sc)
  have run: "fst (runChain exampleBuiltins c1 [''nickname'' \<mapsto> Str []]) ''nickname'' = Some (Str ''Guest'')"
    using g
    by (simp add: runChain_def runStack_def sc sc1 runItem_def Let_def skipped_def fieldValue_def
        setData_def m_def addError_def)
  show ?thesis using norm reach fv r sc sc1 run by auto
qed

text \<open>
  Claim C10. An \<open>in:v1,v2,...\<close> token puts two items on whatever chain it is given: a trim
  sanitizer, and after it the comparison with the trimmed literals; in a field's token list
  they stand where the token stands. When the chain runs them (no earlier \<open>bail\<close> has halted
  the field and the optional mode does not excuse the value), the request's field is replaced
  by what the sanitizer makes of it, and the comparison reports its message exactly when the
  trimmed value is not among the literals. So for a field whose value is a string that,
  trimmed, is an allowed literal, the rule reports nothing and the stored value becomes the
  trimmed string.
\<close>

theorem in_rule_trims_and_stores:
  assumes norm: "normalizeRules raw = Inr (pre @ (''in:'' @ p) # post, customs)"
    and reach: "forEachRule js f (pre @ (''in:'' @ p) # post) (Chain (check f)) pre = Inr (Chain c)"
  shows "\<exists>g. (\<forall>x b. g x b = Returns (trim (jsString js x) \<in> set (map trim (split (CHR '','') p)))) \<and>
      (\<forall>allRules c0. applyRule js f allRules (Chain c0) (''in:'' @ p) =
         Inr (Chain (c0\<lparr>stack := stack c0 @
           [TrimSanitization,
            CustomValidation g (Some (f @ '' must be one of: '' @ join '', '' (map trim (split (CHR '','') p))))]\<rparr>))) \<and>
      fieldValidator js f raw =
        restOfField js f (pre @ (''in:'' @ p) # post) post customs
          (c\<lparr>stack := stack c @
            [TrimSanitization,
             CustomValidation g (Some (f @ '' must be one of: '' @ join '', '' (map trim (split (CHR '','') p))))]\<rparr>) \<and>
      (\<forall>c' st m. m \<noteq> [] \<longrightarrow>
         runStack js c' [TrimSanitization, CustomValidation g (Some m)] st =
           (if halted st \<or> skipped (optionalMode c') (fieldValue (body st) (path c')) then st
            else if trim (jsString js (trimmedValue js (fieldValue (body st) (path c')))) \<in>
                      set (map trim (split (CHR '','') p))
              then st\<lparr>body := (body st)(path c' \<mapsto> trimmedValue js (fieldValue (body st) (path c')))\<rparr>
            else st\<lparr>body := (body st)(path c' \<mapsto> trimmedValue js (fieldValue (body st) (path c'))),
                    errors := errors st @ [(path c', m)]\<rparr>)) \<and>
      (\<forall>c' st m s. \<not> halted st \<and> fieldValue (body st) (path c') = Str s \<and>
           trim s \<in> set (map trim (split (CHR '','') p)) \<longrightarrow>
         runStack js c' [TrimSanitization, CustomValidation g (Some m)] st =
           st\<lparr>body := (body st)(path c' \<mapsto> Str (trim s))\<rparr>)"
proof -
  let ?allowed = "map trim (split (CHR '','') p)"
  let ?msg = "f @ '' must be one of: '' @ join '', '' ?allowed"
  define g :: "'a jsval \<Rightarrow> 'a body \<Rightarrow> outcome"
    where "g = (\<lambda>val b. Returns (trim (jsString js val) \<in> set ?allowed))"
  have gx: "g x b = Returns (trim (jsString js x) \<in> set ?allowed)" for x b
    by (simp add: g_def)
  have tok: "applyRule js f a (Chain c0) (''in:'' @ p) =
      Inr (Chain (c0\<lparr>stack := stack c0 @ [TrimSanitization, CustomValidation g (Some ?msg)]\<rparr>))" for a c0
    using token_name [of "''in''" js f a "Chain c0" p]
    by (simp add: applyParamRule_def call_def g_def custom_def chainTrim_def withMessage_def addItem_def)
  have fv: "fieldValidator js f raw =
      restOfField js f (pre @ (''in:'' @ p) # post) post customs
        (c\<lparr>stack := stack c @ [TrimSanitization, CustomValidation g (Some ?msg)]\<rparr>)"
    by (rule fieldValidator_at_token [OF norm reach tok])
  have tv: "trimmedValue js w \<noteq> Undefined" "trimmedValue js w \<noteq> Null" for w :: "'a jsval"
    by (simp_all add: trimmedValue_def split: jsval.splits)
  have trimItem: "runItem js c' st TrimSanitization =
      st\<lparr>body := (body st)(path c' \<mapsto> trimmedValue js (fieldValue (body st) (path c')))\<rparr>"
    if "\<not> halted st" "\<not> skipped (optionalMode c') (fieldValue (body st) (path c'))" for c' st
  proof -
    let ?v = "fieldValue (body st) (path c')"
    have same: "st\<lparr>body := (body st)(path c' \<mapsto> trimmedValue js ?v)\<rparr> = st" if eq: "trimmedValue js ?v = ?v"
    proof -
      have "body st (path c') = Some ?v"
        using eq tv [of ?v] by (auto simp: fieldValue_def split: option.splits)
      then have "(body st)(path c' \<mapsto> trimmedValue js ?v) = body st"
        using eq by (simp add: fun_upd_idem_iff)
      then show ?thesis by simp
    qed
    have "runItem js c' st TrimSanitization = setData (path c') ?v (trimmedValue js ?v) st"
      using that by (simp add: runItem_def Let_def trimmedValue_def)
    then show ?thesis using same by (auto simp: setData_def)
  qed
  have two: "runStack js c' [TrimSanitization, CustomValidation g (Some m)] st =
           (if halted st \<or> skipped (optionalMode c') (fieldValue (body st) (path c')) then st
            else if trim (jsString js (trimmedValue js (fieldValue (body st) (path c')))) \<in> set ?allowed
              then st\<lparr>body := (body st)(path c' \<mapsto> trimmedValue js (fieldValue (body st) (path c')))\<rparr>
            else st\<lparr>body := (body st)(path c' \<mapsto> trimmedValue js (fieldValue (body st) (path c'))),
                    errors := errors st @ [(path c', m)]\<rparr>)"
    if m: "m \<noteq> []" for c' st m
  proof (cases "halted st \<or> skipped (optionalMode c') (fieldValue (body st) (path c'))")
    case True
    then show ?thesis by (auto simp: runStack_def runItem_def Let_def)
  next
    case False
    let ?v = "fieldValue (body st) (path c')"
    let ?st1 = "st\<lparr>body := (body st)(path c' \<mapsto> trimmedValue js ?v)\<rparr>"
    have 1: "runItem js c' st TrimSanitization = ?st1"
      using False by (intro trimItem) simp_all
    have v1: "fieldValue ((body st)(path c' \<mapsto> trimmedValue js ?v)) (path c') = trimmedValue js ?v"
      by (simp add: fieldValue_def)
    have ns: "\<not> skipped (optionalMode c') (trimmedValue js ?v)"
      using tv [of ?v] by (simp add: skipped_def split: optionalMode.splits)
    have 2: "runItem js c' ?st1 (CustomValidation g (Some m)) =
        (if trim (jsString js (trimmedValue js ?v)) \<in> set ?allowed then ?st1
         else ?st1\<lparr>errors := errors st @ [(path c', m)]\<rparr>)"
      using False ns m
      by (simp add: runItem_def Let_def v1 gx addError_def messageOf_def reported_def)
    show ?thesis using False 1 2 by (simp add: runStack_def)
  qed
  have str: "runStack js c' [TrimSanitization, CustomValidation g (Some m)] st =
           st\<lparr>body := (body st)(path c' \<mapsto> Str (trim s))\<rparr>"
    if "\<not> halted st" "fieldValue (body st) (path c') = Str s" "trim s \<in> set ?allowed" for c' st m s
  proof -
    let ?st1 = "st\<lparr>body := (body st)(path c' \<mapsto> Str (trim s))\<rparr>"
    have ns: "\<not> skipped (optionalMode c') (Str s)" "\<not> skipped (optionalMode c') (Str (trim s))"
      by (simp_all add: skipped_def split: optionalMode.splits)
    have t: "trimmedValue js (Str s) = Str (trim s)"
      by (simp add: trimmedValue_def evToString_def)
    have 1: "runItem js c' st TrimSanitization = ?st1"
      using trimItem [of st c'] that ns t by simp
    have 2: "runItem js c' ?st1 (CustomValidation g (Some m)) = ?st1"
      using that ns by (simp add: runItem_def Let_def fieldValue_def gx trim_idem)
    show ?thesis using 1 2 by (simp add: runStack_def)
  qed
  show ?thesis using gx tok fv two str by blast
qed

theorem in_rule_trims_and_stores_witness:
  "normalizeRules (RawString ''required|in:admin,user'' :: jsnum rawRules) =
     Inr ([''required''] @ (''in:'' @ ''admin,user'') # [], []) \<and>
   ''role must be one of: admin, user'' \<noteq> [] \<and>
   trim ''  user '' \<in> set (map trim (split (CHR '','') ''admin,user'')) \<and>
   (\<exists>c c1. forEachRule exampleBuiltins ''role'' ([''required''] @ (''in:'' @ ''admin,user'') # [])
        (Chain (check ''role'')) [''required''] = Inr (Chain c) \<and>
      fieldValidator exampleBuiltins ''role'' (RawString ''required|in:admin,user'') = Inr (Chain c1) \<and>
      runChain exampleBuiltins c1 [''role'' \<mapsto> Str ''  user ''] = ([''role'' \<mapsto> Str ''user''], []) \<and>
      runChain exampleBuiltins c1 [''role'' \<mapsto> Str ''guest''] =
        ([''role'' \<mapsto> Str ''guest''], [(''role'', ''role must be one of: admin, user'')]))"
proof -
  have t: "trim ''  user '' = ''user''" by code_simp
  have t2: "trim ''guest'' = ''guest''" by code_simp
  have ta: "trim ''admin'' = ''admin''" "trim ''user'' = ''user''" by code_simp+
  have a: "map trim (split (CHR '','') ''admin,user'') = [''admin'', ''user'']" by code_simp
  have j: "join '', '' [''admin'', ''user''] = ''admin, user''" by simp
  have norm: "normalizeRules (RawString ''required|in:admin,user'' :: jsnum rawRules) =
     Inr ([''required''] @ (''in:'' @ ''admin,user'') # [], [])"
    by (simp add: normalizeRules_def)
  define c :: "jsnum chain"
    where "c = bail (withMessage (''role'' @ '' is required'') (notEmpty (check ''role'')))"
  have reach: "forEachRule exampleBuiltins ''role'' ([''required''] @ (''in:'' @ ''admin,user'') # [])
        (Chain (check ''role'')) [''required''] = Inr (Chain c)"
    by (simp add: applyRule_def basicValidators_def call_def c_def)
  let ?m = "''role'' @ '' must be one of: '' @ join '', '' (map trim (split (CHR '','') ''admin,user''))"
  obtain g where fv: "fieldValidator exampleBuiltins ''role'' (RawString ''required|in:admin,user'') =
        restOfField exampleBuiltins ''role'' ([''required''] @ (''in:'' @ ''admin,user'') # []) [] []
          (c\<lparr>stack := stack c @ [TrimSanitization, CustomValidation g (Some ?m)]\<rparr>)"
    and two: "\<forall>c' st m. m \<noteq> [] \<longrightarrow>
         runStack exampleBuiltins c' [TrimSanitization, CustomValidation g (Some m)] st =
           (if halted st \<or> skipped (optionalMode c') (fieldValue (body st) (path c')) then st
            else if trim (jsString exampleBuiltins (trimmedValue exampleBuiltins (fieldValue (body st) (path c')))) \<in>
                      set (map trim (split (CHR '','') ''admin,user''))
              then st\<lparr>body := (body st)(path c' \<mapsto> trimmedValue exampleBuiltins (fieldValue (body st) (path c')))\<rparr>
            else st\<lparr>body := (body st)(path c' \<mapsto> trimmedValue exampleBuiltins (fieldValue (body st) (path c'))),
                    errors := errors st @ [(path c', m)]\<rparr>)"
    using in_rule_trims_and_stores [OF norm reach] by blast
  define c1 where "c1 = c\<lparr>stack := stack c @ [TrimSanitization, CustomValidation g (Some ?m)]\<rparr>"
  have fv1: "fieldValidator exampleBuiltins ''role'' (RawString ''required|in:admin,user'') = Inr (Chain c1)"
    using fv by (simp add: restOfField_def c1_def)
  have sc: "stack c = [StandardValidation IsEmpty True (Some ''role is required''), Bail]"
      "path c = ''role''" "optionalMode c = NotOptional"
    by (simp_all add: c_def bail_def notEmpty_def withMessage_def addItem_def check_def)
  have sc1: "stack c1 = stack c @ [TrimSanitization, CustomValidation g (Some ?m)]" "path c1 = ''role''"
      "optionalMode c1 = NotOptional"
    by (simp_all add: c1_def sc)
  have first: "runStack exampleBuiltins c1 (stack c) \<lparr>body = [''role'' \<mapsto> Str s], errors = [], halted = False\<rparr> =
      \<lparr>body = [''role'' \<mapsto> Str s], errors = [], halted = False\<rparr>" if "s \<noteq> []" for s
    using that
    by (simp add: runStack_def sc sc1 runItem_def Let_def skipped_def fieldValue_def evToString_def
        evalStd_def)
  have r1: "runChain exampleBuiltins c1 [''role'' \<mapsto> Str ''  user ''] = ([''role'' \<mapsto> Str ''user''], [])"
    using two [rule_format, of ?m c1 "\<lparr>body = [''role'' \<mapsto> Str ''  user ''], errors = [], halted = False\<rparr>"]
      first [of "''  user ''"]
    by (simp add: runChain_def sc1 runStack_append skipped_def fieldValue_def trimmedValue_def
        evToString_def t ta a j trim_idem)
  have r2: "runChain exampleBuiltins c1 [''role'' \<mapsto> Str ''guest''] =
        ([''role'' \<mapsto> Str ''guest''], [(''role'', ''role must be one of: admin, user'')])"
    using two [rule_format, of ?m c1 "\<lparr>body = [''role'' \<mapsto> Str ''guest''], errors = [], halted = False\<rparr>"]
      first [of "''guest''"]
    by (simp add: runChain_def sc1 runStack_append skipped_def fieldValue_def trimmedValue_def
        evToString_def t2 ta a j)
  have "trim ''  user '' \<in> set (map trim (split (CHR '','') ''admin,user''))"
    by (simp add: t ta)
  then show ?thesis using norm reach fv1 r1 r2 by auto
qed

end
